theory Spec2Isabelle
  imports Main "HOL-Library.AList" "HOL-Library.Multiset"
begin

section \<open>The task group service of the automation scheduler\<close>

text \<open>
  A shallow embedding of \<^verbatim>\<open>TaskGroupService\<close> (src/unnamed/part_002): the cron registry
  (\<^verbatim>\<open>scheduleGroup\<close>, \<^verbatim>\<open>cleanup\<close>), the orchestration of one group run
  (\<^verbatim>\<open>executeGroup\<close>) and the CRUD operations that drive the registry
  (\<^verbatim>\<open>createGroup\<close>, \<^verbatim>\<open>updateGroup\<close>, \<^verbatim>\<open>deleteGroup\<close>).

  The service is a class with mutable fields that awaits a database client, a cron
  library and an action executor. The model passes the state explicitly, returns a thrown
  error as \<open>Inl\<close>, and takes the collaborators that are not part of the service as an
  environment of functions over an abstract outside world \<open>'w\<close>.
\<close>

subsection \<open>Rendering numbers in template strings\<close>

definition digit :: "nat \<Rightarrow> char" where
  "digit d = char_of (48 + d)"

function show_nat :: "nat \<Rightarrow> string" where
  "show_nat n = (if n < 10 then [digit n] else show_nat (n div 10) @ [digit (n mod 10)])"
  by pat_completeness auto
termination
  by (relation "measure id") auto

declare show_nat.simps [simp del]

definition show_int :: "int \<Rightarrow> string" where
  "show_int i = (if i < 0 then CHR ''-'' # show_nat (nat (- i)) else show_nat (nat i))"

subsection \<open>Records of the service\<close>

text \<open>A \<^verbatim>\<open>Date\<close> is a reading of the clock, in milliseconds.\<close>

type_synonym date = nat

record server_ref =
  srv_id :: string
  srv_name :: string

text \<open>\<^verbatim>\<open>interface TaskWithServer\<close>.\<close>

record task_with_server =
  t_id :: string
  t_name :: string
  t_type :: string
  t_serverId :: string
  t_enabled :: bool
  t_cronExpression :: string
  t_taskData :: "string option"
  t_server :: server_ref

text \<open>
  \<^verbatim>\<open>TaskGroupMember\<close> with the columns the service reads and writes, and
  \<^verbatim>\<open>interface TaskGroupMemberWithTask extends TaskGroupMember\<close>.
\<close>

record task_group_member =
  m_groupId :: string
  m_taskId :: string
  m_sortOrder :: int

record task_group_member_with_task = task_group_member +
  m_task :: task_with_server

text \<open>
  \<^verbatim>\<open>TaskGroup\<close> with the columns the service reads and writes, and
  \<^verbatim>\<open>interface TaskGroupWithMembers extends TaskGroup\<close>. The failure mode is a string
  column that the orchestrator compares with \<^verbatim>\<open>'stop'\<close>.
\<close>

record task_group =
  g_id :: string
  g_name :: string
  g_description :: "string option"
  g_cronExpression :: string
  g_failureMode :: string
  g_delayBetweenTasks :: int
  g_enabled :: bool
  g_lastRun :: "date option"
  g_lastStatus :: "string option"
  g_lastError :: "string option"

record task_group_with_members = task_group +
  taskMemberships :: "task_group_member_with_task list"

text \<open>\<^verbatim>\<open>interface TaskResult\<close>; its status is the union \<^verbatim>\<open>'success' | 'failed' | 'skipped'\<close>.\<close>

datatype result_status = Success | Failed | Skipped

record task_result =
  r_taskId :: string
  r_taskName :: string
  r_serverId :: string
  r_serverName :: string
  r_status :: result_status
  r_error :: "string option"
  r_startedAt :: date
  r_completedAt :: "date option"

text \<open>
  \<^verbatim>\<open>TaskGroupExecution\<close>. The column \<^verbatim>\<open>taskResults\<close> holds \<^verbatim>\<open>JSON.stringify(results)\<close>;
  the model keeps the list that the string encodes, and \<open>None\<close> for a column that is
  still null.
\<close>

record task_group_execution =
  x_id :: string
  x_groupId :: string
  x_startedAt :: date
  x_completedAt :: "date option"
  x_status :: string
  x_tasksTotal :: nat
  x_tasksCompleted :: nat
  x_tasksFailed :: nat
  x_tasksSkipped :: nat
  x_taskResults :: "task_result list option"
  x_errorMessage :: "string option"

text \<open>
  A thrown value: an \<^verbatim>\<open>Error\<close> of the service with its message, or an error of the
  database client.
\<close>

datatype error = Error string | RecordNotFound | UniqueConstraint | ForeignKeyConstraint

subsection \<open>The collaborators\<close>

text \<open>
  What the service logs, and what it asks of the executor and of the timer: a log line, a
  call of \<^verbatim>\<open>schedulerService.executeTask\<close> made at iteration \<open>i\<close> of the loop for the
  task of that id, and a suspension of so many milliseconds.
\<close>

datatype log_level = Info | Err

datatype effect = Log log_level string | ExecuteTask nat string | Delay int

text \<open>
  The environment: \<^verbatim>\<open>cron.validate\<close>; \<^verbatim>\<open>schedulerService.executeTask\<close>, which acts on
  the outside world and either returns or throws an error with a message (\<open>Inl\<close>);
  \<^verbatim>\<open>new Date()\<close>; the passing of time during \<^verbatim>\<open>setTimeout\<close>; and the primary key
  that the database assigns to a new row.
\<close>

record 'w env =
  validate :: "string \<Rightarrow> bool"
  executeTask :: "task_with_server \<Rightarrow> 'w \<Rightarrow> (string + unit) \<times> 'w"
  clock :: "'w \<Rightarrow> date"
  sleep :: "int \<Rightarrow> 'w \<Rightarrow> 'w"
  newId :: "'w \<Rightarrow> string \<times> 'w"

subsection \<open>The store\<close>

text \<open>
  Modelled from the spec: the Prisma client and its schema are not under src/. The spec
  (section 6) asks of the store: CRUD for Task, TaskGroup and TaskGroupMember, create and
  update of TaskGroupExecution records, and the read of a group with its ordered
  membership and each member's task. A table is the list of its rows in insertion order;
  a row is found by its unique key; creating a row whose key exists, and updating or
  deleting a row that does not exist, throw.
\<close>

record store =
  taskGroups :: "task_group list"
  taskGroupMembers :: "task_group_member list"
  tasks :: "task_with_server list"
  taskGroupExecutions :: "task_group_execution list"

text \<open>Modelled from the spec: \<^verbatim>\<open>prisma.taskGroup.findUnique({ where: { id } })\<close>.\<close>

definition taskGroup_findUnique :: "store \<Rightarrow> string \<Rightarrow> task_group option" where
  "taskGroup_findUnique d gid = find (\<lambda>g. g_id g = gid) (taskGroups d)"

text \<open>Modelled from the spec: the join of a membership row with its task.\<close>

definition include_task :: "store \<Rightarrow> task_group_member \<Rightarrow> task_group_member_with_task option" where
  "include_task d m =
     (case find (\<lambda>t. t_id t = m_taskId m) (tasks d) of
        None \<Rightarrow> None
      | Some t \<Rightarrow> Some \<lparr>m_groupId = m_groupId m, m_taskId = m_taskId m,
                         m_sortOrder = m_sortOrder m, m_task = t\<rparr>)"

text \<open>
  \<^verbatim>\<open>getGroupWithTasks\<close>: the group with its memberships, each with its task, ordered by
  \<^verbatim>\<open>sortOrder\<close> ascending.
\<close>

definition getGroupWithTasks :: "store \<Rightarrow> string \<Rightarrow> task_group_with_members option" where
  "getGroupWithTasks d groupId =
     (case taskGroup_findUnique d groupId of
        None \<Rightarrow> None
      | Some g \<Rightarrow>
          Some \<lparr>g_id = g_id g, g_name = g_name g, g_description = g_description g,
                g_cronExpression = g_cronExpression g, g_failureMode = g_failureMode g,
                g_delayBetweenTasks = g_delayBetweenTasks g, g_enabled = g_enabled g,
                g_lastRun = g_lastRun g, g_lastStatus = g_lastStatus g,
                g_lastError = g_lastError g,
                taskMemberships =
                  sort_key m_sortOrder
                    (List.map_filter (include_task d)
                       (filter (\<lambda>m. m_groupId m = groupId) (taskGroupMembers d)))\<rparr>)"

text \<open>Modelled from the spec: \<^verbatim>\<open>prisma.taskGroupExecution.create\<close>.\<close>

definition taskGroupExecution_create ::
  "task_group_execution \<Rightarrow> store \<Rightarrow> error + task_group_execution \<times> store" where
  "taskGroupExecution_create x d =
     (if x_id x \<in> set (map x_id (taskGroupExecutions d)) then Inl UniqueConstraint
      else Inr (x, d\<lparr>taskGroupExecutions := taskGroupExecutions d @ [x]\<rparr>))"

text \<open>Modelled from the spec: the update of the row of a table that has the key.\<close>

fun update_row :: "('a \<Rightarrow> bool) \<Rightarrow> ('a \<Rightarrow> 'a) \<Rightarrow> 'a list \<Rightarrow> ('a \<times> 'a list) option" where
  "update_row p f [] = None"
| "update_row p f (x # xs) =
     (if p x then Some (f x, f x # xs)
      else (case update_row p f xs of
              None \<Rightarrow> None
            | Some (y, ys) \<Rightarrow> Some (y, x # ys)))"

text \<open>Modelled from the spec: \<^verbatim>\<open>prisma.taskGroupExecution.update({ where: { id }, data })\<close>.\<close>

definition taskGroupExecution_update ::
  "string \<Rightarrow> (task_group_execution \<Rightarrow> task_group_execution) \<Rightarrow> store
     \<Rightarrow> error + task_group_execution \<times> store" where
  "taskGroupExecution_update xid f d =
     (case update_row (\<lambda>x. x_id x = xid) f (taskGroupExecutions d) of
        None \<Rightarrow> Inl RecordNotFound
      | Some (x, xs) \<Rightarrow> Inr (x, d\<lparr>taskGroupExecutions := xs\<rparr>))"

text \<open>Modelled from the spec: \<^verbatim>\<open>prisma.taskGroup.update({ where: { id }, data })\<close>.\<close>

definition taskGroup_update ::
  "string \<Rightarrow> (task_group \<Rightarrow> task_group) \<Rightarrow> store \<Rightarrow> error + task_group \<times> store" where
  "taskGroup_update gid f d =
     (case update_row (\<lambda>g. g_id g = gid) f (taskGroups d) of
        None \<Rightarrow> Inl RecordNotFound
      | Some (g, gs) \<Rightarrow> Inr (g, d\<lparr>taskGroups := gs\<rparr>))"

subsection \<open>The state of the service and of one run\<close>

text \<open>
  A \<^verbatim>\<open>cron.ScheduledTask\<close>: its expression, the group id that its callback passes to
  \<^verbatim>\<open>executeGroup\<close>, its time zone, and whether it is running. \<^verbatim>\<open>cronTasks\<close> holds every
  task that \<^verbatim>\<open>cron.schedule\<close> has created; a task is referred to by its position there.
\<close>

record cron_task =
  ct_expression :: string
  ct_groupId :: string
  ct_timezone :: string
  ct_running :: bool

text \<open>
  The state: the database, the field \<^verbatim>\<open>scheduledGroups\<close> (a \<^verbatim>\<open>Map\<close> in insertion order,
  from group id to scheduled task), the tasks of the cron library, what has been logged
  and asked of the collaborators so far, and the outside world.
\<close>

record 'w state =
  db :: store
  scheduledGroups :: "(string \<times> nat) list"
  cronTasks :: "cron_task list"
  effects :: "effect list"
  world :: 'w

text \<open>
  The variables of the loop of \<^verbatim>\<open>executeGroup\<close>: \<^verbatim>\<open>results\<close> and \<^verbatim>\<open>failed\<close>, with the
  world and the effects that the loop changes.
\<close>

record 'w run =
  results :: "task_result list"
  failed :: bool
  r_world :: 'w
  r_effects :: "effect list"

subsection \<open>executeGroup\<close>

text \<open>The result pushed for a task that is not executed.\<close>

definition skipped_result :: "'w env \<Rightarrow> 'w \<Rightarrow> task_with_server \<Rightarrow> string \<Rightarrow> task_result" where
  "skipped_result e w task msg =
     \<lparr>r_taskId = t_id task, r_taskName = t_name task, r_serverId = t_serverId task,
      r_serverName = srv_name (t_server task), r_status = Skipped, r_error = Some msg,
      r_startedAt = clock e w, r_completedAt = Some (clock e w)\<rparr>"

text \<open>
  The body of the loop at index \<open>i\<close> of \<open>n = sortedTasks.length\<close>. The two
  \<^verbatim>\<open>continue\<close> statements leave the body before the delay.
\<close>

definition process_member ::
  "'w env \<Rightarrow> 'g task_group_scheme \<Rightarrow> nat \<Rightarrow> nat \<Rightarrow> task_group_member_with_task
     \<Rightarrow> 'w run \<Rightarrow> 'w run" where
  "process_member e grp n i membership r =
     (let task = m_task membership in
      if \<not> t_enabled task then
        r\<lparr>results := results r @ [skipped_result e (r_world r) task ''Task is disabled'']\<rparr>
      else if failed r \<and> g_failureMode grp = ''stop'' then
        r\<lparr>results := results r @
             [skipped_result e (r_world r) task ''Skipped due to previous task failure'']\<rparr>
      else
        let taskStarted = clock e (r_world r);
            (outcome, w) = executeTask e task (r_world r);
            called = r_effects r @ [ExecuteTask i (t_id task)];
            r1 = (case outcome of
                    Inr _ \<Rightarrow>
                      r\<lparr>results := results r @
                           [\<lparr>r_taskId = t_id task, r_taskName = t_name task,
                             r_serverId = t_serverId task,
                             r_serverName = srv_name (t_server task), r_status = Success,
                             r_error = None, r_startedAt = taskStarted,
                             r_completedAt = Some (clock e w)\<rparr>],
                         r_world := w, r_effects := called\<rparr>
                  | Inl message \<Rightarrow>
                      r\<lparr>failed := True,
                         results := results r @
                           [\<lparr>r_taskId = t_id task, r_taskName = t_name task,
                             r_serverId = t_serverId task,
                             r_serverName = srv_name (t_server task), r_status = Failed,
                             r_error = Some message, r_startedAt = taskStarted,
                             r_completedAt = Some (clock e w)\<rparr>],
                         r_world := w, r_effects := called\<rparr>)
        in if int i < int n - 1 \<and> g_delayBetweenTasks grp > 0 then
             r1\<lparr>r_effects := r_effects r1 @
                    [Log Info (''Waiting '' @ show_int (g_delayBetweenTasks grp)
                                @ '' seconds before next task...''),
                     Delay (g_delayBetweenTasks grp * 1000)],
                r_world := sleep e (g_delayBetweenTasks grp * 1000) (r_world r1)\<rparr>
           else r1)"

text \<open>
  \<^verbatim>\<open>for (let i = 0; i < sortedTasks.length; i++)\<close>, from index \<open>i\<close> on, over the
  members that are left.
\<close>

fun run_members ::
  "'w env \<Rightarrow> 'g task_group_scheme \<Rightarrow> nat \<Rightarrow> nat \<Rightarrow> task_group_member_with_task list
     \<Rightarrow> 'w run \<Rightarrow> 'w run" where
  "run_members e grp n i [] r = r"
| "run_members e grp n i (membership # rest) r =
     run_members e grp n (Suc i) rest (process_member e grp n i membership r)"

text \<open>The final status, from the three counts.\<close>

definition final_status :: "nat \<Rightarrow> nat \<Rightarrow> nat \<Rightarrow> string" where
  "final_status completed failedCount skippedCount =
     (if failedCount = 0 \<and> skippedCount = 0 then ''success''
      else if completed = 0 then ''failed''
      else ''partial'')"

definition count_status :: "result_status \<Rightarrow> task_result list \<Rightarrow> nat" where
  "count_status st rs = length (filter (\<lambda>r. r_status r = st) rs)"

definition failed_message :: "nat \<Rightarrow> string option" where
  "failed_message failedCount =
     (if failedCount > 0 then Some (show_nat failedCount @ '' task(s) failed'') else None)"

definition executeGroup ::
  "'w env \<Rightarrow> string \<Rightarrow> 'w state \<Rightarrow> (error + task_group_execution) \<times> 'w state" where
  "executeGroup e groupId s =
     (case getGroupWithTasks (db s) groupId of
        None \<Rightarrow> (Inl (Error (''Task group '' @ groupId @ '' not found'')), s)
      | Some grp \<Rightarrow>
          let s1 = s\<lparr>effects := effects s @ [Log Info (''Executing task group: '' @ g_name grp)]\<rparr>;
              (xid, w1) = newId e (world s1)
          in (case taskGroupExecution_create
                     \<lparr>x_id = xid, x_groupId = groupId, x_startedAt = clock e w1,
                      x_completedAt = None, x_status = ''running'',
                      x_tasksTotal = length (taskMemberships grp),
                      x_tasksCompleted = 0, x_tasksFailed = 0, x_tasksSkipped = 0,
                      x_taskResults = None, x_errorMessage = None\<rparr> (db s1) of
                Inl err \<Rightarrow> (Inl err, s1\<lparr>world := w1\<rparr>)
              | Inr (execution, d1) \<Rightarrow>
                  let sortedTasks = sort_key m_sortOrder (taskMemberships grp);
                      r = run_members e grp (length sortedTasks) 0 sortedTasks
                            \<lparr>results = [], failed = False, r_world = w1, r_effects = effects s1\<rparr>;
                      completed = count_status Success (results r);
                      failedCount = count_status Failed (results r);
                      skippedCount = count_status Skipped (results r);
                      status = final_status completed failedCount skippedCount;
                      s2 = s1\<lparr>db := d1, world := r_world r, effects := r_effects r\<rparr>
                  in (case taskGroupExecution_update (x_id execution)
                             (\<lambda>x. x\<lparr>x_completedAt := Some (clock e (r_world r)),
                                     x_status := status,
                                     x_tasksCompleted := completed,
                                     x_tasksFailed := failedCount,
                                     x_tasksSkipped := skippedCount,
                                     x_taskResults := Some (results r),
                                     x_errorMessage := failed_message failedCount\<rparr>) d1 of
                        Inl err \<Rightarrow> (Inl err, s2)
                      | Inr (updatedExecution, d2) \<Rightarrow>
                          (case taskGroup_update groupId
                                  (\<lambda>g. g\<lparr>g_lastRun := Some (clock e (r_world r)),
                                          g_lastStatus := Some status,
                                          g_lastError := failed_message failedCount\<rparr>) d2 of
                             Inl err \<Rightarrow> (Inl err, s2\<lparr>db := d2\<rparr>)
                           | Inr (_, d3) \<Rightarrow>
                               (Inr updatedExecution,
                                s2\<lparr>db := d3,
                                   effects := r_effects r @
                                     [Log Info (''Task group '' @ g_name grp @ '' completed: ''
                                        @ show_nat completed @ ''/''
                                        @ show_nat (length (results r)) @ '' successful'')]\<rparr>)))))"

text \<open>
  Names for the parts of a run that the statements below speak about: the members in the
  order of the loop, the variables of the loop before its first iteration and before
  iteration \<open>k\<close>, and the effects that a call has added to the state.
\<close>

definition sortedTasks ::
  "'g task_group_with_members_scheme \<Rightarrow> task_group_member_with_task list" where
  "sortedTasks grp = sort_key m_sortOrder (taskMemberships grp)"

definition run_start :: "'w env \<Rightarrow> 'g task_group_with_members_scheme \<Rightarrow> 'w state \<Rightarrow> 'w run" where
  "run_start e grp s =
     \<lparr>results = [], failed = False, r_world = snd (newId e (world s)),
      r_effects = effects s @ [Log Info (''Executing task group: '' @ g_name grp)]\<rparr>"

definition run_before ::
  "'w env \<Rightarrow> 'g task_group_with_members_scheme \<Rightarrow> 'w state \<Rightarrow> nat \<Rightarrow> 'w run" where
  "run_before e grp s k =
     run_members e grp (length (sortedTasks grp)) 0 (take k (sortedTasks grp)) (run_start e grp s)"

definition new_effects :: "'w state \<Rightarrow> 'w state \<Rightarrow> effect list" where
  "new_effects s s' = drop (length (effects s)) (effects s')"

text \<open>The result that one iteration pushes, and the effects that go with a result.\<close>

definition new_result ::
  "'w env \<Rightarrow> 'g task_group_scheme \<Rightarrow> task_group_member_with_task \<Rightarrow> 'w run \<Rightarrow> task_result" where
  "new_result e grp membership r = last (results (process_member e grp 0 0 membership r))"

definition member_effects :: "'g task_group_scheme \<Rightarrow> nat \<Rightarrow> nat \<Rightarrow> task_result \<Rightarrow> effect list" where
  "member_effects grp n i res =
     (if r_status res = Skipped then []
      else ExecuteTask i (r_taskId res) #
           (if int i < int n - 1 \<and> g_delayBetweenTasks grp > 0
            then [Log Info (''Waiting '' @ show_int (g_delayBetweenTasks grp)
                              @ '' seconds before next task...''),
                  Delay (g_delayBetweenTasks grp * 1000)]
            else []))"

text \<open>The flag \<^verbatim>\<open>failed\<close> says whether a result so far is a failure.\<close>

definition failed_ok :: "'w run \<Rightarrow> bool" where
  "failed_ok r = (failed r = (Failed \<in> set (map r_status (results r))))"

definition is_delay :: "effect \<Rightarrow> bool" where
  "is_delay ef = (case ef of Delay ms \<Rightarrow> True | _ \<Rightarrow> False)"

definition is_log :: "effect \<Rightarrow> bool" where
  "is_log ef = (case ef of Log lv msg \<Rightarrow> True | _ \<Rightarrow> False)"

subsection \<open>The registry of scheduled groups\<close>

text \<open>
  \<^verbatim>\<open>cron.schedule(expression, callback, { scheduled: true, timezone: 'UTC' })\<close> creates a
  running task; \<^verbatim>\<open>task.stop()\<close> stops it.
\<close>

definition cron_schedule :: "string \<Rightarrow> string \<Rightarrow> cron_task list \<Rightarrow> nat \<times> cron_task list" where
  "cron_schedule expression gid ts =
     (length ts, ts @ [\<lparr>ct_expression = expression, ct_groupId = gid,
                        ct_timezone = ''UTC'', ct_running = True\<rparr>])"

definition cron_stop :: "nat \<Rightarrow> cron_task list \<Rightarrow> cron_task list" where
  "cron_stop h ts = (if h < length ts then ts[h := (ts ! h)\<lparr>ct_running := False\<rparr>] else ts)"

text \<open>
  The block that \<^verbatim>\<open>scheduleGroup\<close>, \<^verbatim>\<open>updateGroup\<close> and \<^verbatim>\<open>deleteGroup\<close> each contain:
  \<^verbatim>\<open>if (this.scheduledGroups.has(id)) { this.scheduledGroups.get(id)?.stop();
  this.scheduledGroups.delete(id); }\<close>
\<close>

definition stop_existing :: "string \<Rightarrow> 'w state \<Rightarrow> 'w state" where
  "stop_existing gid s =
     (case map_of (scheduledGroups s) gid of
        None \<Rightarrow> s
      | Some h \<Rightarrow> s\<lparr>cronTasks := cron_stop h (cronTasks s),
                     scheduledGroups := AList.delete gid (scheduledGroups s)\<rparr>)"

text \<open>
  \<^verbatim>\<open>scheduleGroup\<close> returns nothing and has no \<^verbatim>\<open>throw\<close>: on an invalid expression
  it logs an error and returns. The result is a sum all the same, since its caller
  \<^verbatim>\<open>loadTaskGroups\<close> wraps the call in \<^verbatim>\<open>try\<close>.
\<close>

definition scheduleGroup ::
  "'w env \<Rightarrow> 'g task_group_scheme \<Rightarrow> 'w state \<Rightarrow> (error + unit) \<times> 'w state" where
  "scheduleGroup e grp s =
     (if \<not> validate e (g_cronExpression grp) then
        (Inr (), s\<lparr>effects := effects s @
                     [Log Err (''Invalid cron expression for task group '' @ g_name grp
                                 @ '': '' @ g_cronExpression grp)]\<rparr>)
      else
        let s1 = stop_existing (g_id grp) s;
            (cronTask, ts) = cron_schedule (g_cronExpression grp) (g_id grp) (cronTasks s1)
        in (Inr (), s1\<lparr>cronTasks := ts,
                        scheduledGroups := AList.update (g_id grp) cronTask (scheduledGroups s1),
                        effects := effects s1 @
                          [Log Info (''Scheduled task group: '' @ g_name grp @ '' (''
                                       @ g_cronExpression grp @ '')'')]\<rparr>))"



subsection \<open>CRUD operations\<close>

text \<open>Modelled from the spec: \<^verbatim>\<open>prisma.taskGroup.create\<close>.\<close>

definition taskGroup_create :: "task_group \<Rightarrow> store \<Rightarrow> error + task_group \<times> store" where
  "taskGroup_create g d =
     (if g_id g \<in> set (map g_id (taskGroups d)) then Inl UniqueConstraint
      else Inr (g, d\<lparr>taskGroups := taskGroups d @ [g]\<rparr>))"


text \<open>
  Modelled from the spec: \<^verbatim>\<open>prisma.taskGroupMember.create\<close>. A membership refers to a
  group and a task of the store, and the pair \<^verbatim>\<open>groupId_taskId\<close>, by which
  \<^verbatim>\<open>removeTask\<close> and \<^verbatim>\<open>reorderTasks\<close> find a row, is unique.
\<close>

definition taskGroupMember_create :: "task_group_member \<Rightarrow> store \<Rightarrow> error + store" where
  "taskGroupMember_create m d =
     (if m_groupId m \<notin> set (map g_id (taskGroups d)) \<or> m_taskId m \<notin> set (map t_id (tasks d))
      then Inl ForeignKeyConstraint
      else if (m_groupId m, m_taskId m) \<in> set (map (\<lambda>x. (m_groupId x, m_taskId x)) (taskGroupMembers d))
      then Inl UniqueConstraint
      else Inr (d\<lparr>taskGroupMembers := taskGroupMembers d @ [m]\<rparr>))"

text \<open>
  Modelled from the spec: \<^verbatim>\<open>prisma.taskGroupMember.aggregate({ where: { groupId },
  _max: { sortOrder: true } })\<close>, null for a group without members.
\<close>

definition max_sortOrder :: "store \<Rightarrow> string \<Rightarrow> int option" where
  "max_sortOrder d groupId =
     (case map m_sortOrder (filter (\<lambda>m. m_groupId m = groupId) (taskGroupMembers d)) of
        [] \<Rightarrow> None
      | x # xs \<Rightarrow> Some (fold max xs x))"

definition addTask ::
  "string \<Rightarrow> string \<Rightarrow> int option \<Rightarrow> 'w state \<Rightarrow> (error + unit) \<times> 'w state" where
  "addTask groupId taskId sortOrder s =
     (let so = (case sortOrder of
                  Some n \<Rightarrow> n
                | None \<Rightarrow> (case max_sortOrder (db s) groupId of None \<Rightarrow> - 1 | Some n \<Rightarrow> n) + 1)
      in case taskGroupMember_create
                \<lparr>m_groupId = groupId, m_taskId = taskId, m_sortOrder = so\<rparr> (db s) of
           Inl err \<Rightarrow> (Inl err, s)
         | Inr d \<Rightarrow>
             (Inr (), s\<lparr>db := d,
                        effects := effects s @
                          [Log Info (''Added task '' @ taskId @ '' to group '' @ groupId
                                       @ '' at position '' @ show_int so)]\<rparr>))"

text \<open>The argument of \<^verbatim>\<open>createGroup\<close>; an optional field that is left out is \<open>None\<close>.\<close>

record create_data =
  cd_name :: string
  cd_description :: "string option"
  cd_cronExpression :: string
  cd_failureMode :: "string option"
  cd_delayBetweenTasks :: "int option"
  cd_enabled :: "bool option"
  cd_taskIds :: "string list option"

text \<open>
  \<^verbatim>\<open>for (let i = 0; i < data.taskIds.length; i++) await this.addTask(group.id,
  data.taskIds[i], i)\<close>, from index \<open>i\<close> on; an error of \<^verbatim>\<open>addTask\<close> leaves the loop.
\<close>

fun add_tasks :: "string \<Rightarrow> nat \<Rightarrow> string list \<Rightarrow> 'w state \<Rightarrow> (error + unit) \<times> 'w state" where
  "add_tasks groupId i [] s = (Inr (), s)"
| "add_tasks groupId i (taskId # rest) s =
     (case addTask groupId taskId (Some (int i)) s of
        (Inl err, s') \<Rightarrow> (Inl err, s')
      | (Inr u, s') \<Rightarrow> add_tasks groupId (Suc i) rest s')"

text \<open>
  \<^verbatim>\<open>createGroup\<close>. \<^verbatim>\<open>x || y\<close> is \<open>y\<close> when \<open>x\<close> is undefined, the empty string or
  zero; \<^verbatim>\<open>data.enabled !== false\<close> is false for \<^verbatim>\<open>false\<close> only.
\<close>

definition createGroup ::
  "'w env \<Rightarrow> create_data \<Rightarrow> 'w state \<Rightarrow> (error + task_group) \<times> 'w state" where
  "createGroup e data s =
     (if \<not> validate e (cd_cronExpression data) then
        (Inl (Error (''Invalid cron expression: '' @ cd_cronExpression data)), s)
      else
        let (gid, w1) = newId e (world s)
        in (case taskGroup_create
                   \<lparr>g_id = gid, g_name = cd_name data, g_description = cd_description data,
                    g_cronExpression = cd_cronExpression data,
                    g_failureMode = (case cd_failureMode data of
                                       None \<Rightarrow> ''stop''
                                     | Some m \<Rightarrow> if m = [] then ''stop'' else m),
                    g_delayBetweenTasks = (case cd_delayBetweenTasks data of
                                             None \<Rightarrow> 0
                                           | Some n \<Rightarrow> if n = 0 then 0 else n),
                    g_enabled = (cd_enabled data \<noteq> Some False),
                    g_lastRun = None, g_lastStatus = None, g_lastError = None\<rparr> (db s) of
              Inl err \<Rightarrow> (Inl err, s\<lparr>world := w1\<rparr>)
            | Inr (grp, d1) \<Rightarrow>
                (case (case cd_taskIds data of
                         None \<Rightarrow> (Inr (), s\<lparr>db := d1, world := w1\<rparr>)
                       | Some taskIds \<Rightarrow> add_tasks (g_id grp) 0 taskIds (s\<lparr>db := d1, world := w1\<rparr>)) of
                   (Inl err, s2) \<Rightarrow> (Inl err, s2)
                 | (Inr u, s2) \<Rightarrow>
                     let s3 = (if g_enabled grp then snd (scheduleGroup e grp s2) else s2)
                     in (Inr grp,
                         s3\<lparr>effects := effects s3 @
                               [Log Info (''Created task group: '' @ g_name grp)]\<rparr>))))"

text \<open>
  The argument of \<^verbatim>\<open>updateGroup\<close>, a \<^verbatim>\<open>Partial\<close>: the database writes the fields that
  are given and keeps the others.
\<close>

record update_data =
  ud_name :: "string option"
  ud_description :: "string option"
  ud_cronExpression :: "string option"
  ud_failureMode :: "string option"
  ud_delayBetweenTasks :: "int option"
  ud_enabled :: "bool option"

definition apply_update :: "update_data \<Rightarrow> task_group \<Rightarrow> task_group" where
  "apply_update data g =
     g\<lparr>g_name := (case ud_name data of None \<Rightarrow> g_name g | Some v \<Rightarrow> v),
       g_description := (case ud_description data of None \<Rightarrow> g_description g | Some v \<Rightarrow> Some v),
       g_cronExpression := (case ud_cronExpression data of None \<Rightarrow> g_cronExpression g | Some v \<Rightarrow> v),
       g_failureMode := (case ud_failureMode data of None \<Rightarrow> g_failureMode g | Some v \<Rightarrow> v),
       g_delayBetweenTasks :=
         (case ud_delayBetweenTasks data of None \<Rightarrow> g_delayBetweenTasks g | Some v \<Rightarrow> v),
       g_enabled := (case ud_enabled data of None \<Rightarrow> g_enabled g | Some v \<Rightarrow> v)\<rparr>"








subsection \<open>Live timers\<close>

text \<open>
  The running cron tasks whose callback executes the group of an id, and the invariant of
  the registry: the keys of the map are distinct, every entry is a running task of its
  group, and every running task is the entry of its group.
\<close>

definition live_timers :: "'w state \<Rightarrow> string \<Rightarrow> nat list" where
  "live_timers s gid =
     filter (\<lambda>h. ct_running (cronTasks s ! h) \<and> ct_groupId (cronTasks s ! h) = gid)
       [0 ..< length (cronTasks s)]"

definition registry_ok :: "'w state \<Rightarrow> bool" where
  "registry_ok s =
     (distinct (map fst (scheduledGroups s)) \<and>
      (\<forall>(gid, h) \<in> set (scheduledGroups s).
          h < length (cronTasks s) \<and> ct_running (cronTasks s ! h) \<and>
          ct_groupId (cronTasks s ! h) = gid) \<and>
      (\<forall>h < length (cronTasks s).
          ct_running (cronTasks s ! h) \<longrightarrow>
          map_of (scheduledGroups s) (ct_groupId (cronTasks s ! h)) = Some h))"

subsection \<open>Concrete runs\<close>

text \<open>
  A small database and environment at which the theorems below are instantiated: one
  group \<open>g\<close> whose members are the given tasks in the given order, a world that is a
  clock, and an executor that throws for the task \<open>bad\<close> and succeeds for every other.
\<close>

definition sample_task :: "string \<Rightarrow> bool \<Rightarrow> task_with_server" where
  "sample_task n en =
     \<lparr>t_id = n, t_name = n, t_type = ''command'', t_serverId = ''s'', t_enabled = en,
      t_cronExpression = ''* * * * *'', t_taskData = None,
      t_server = \<lparr>srv_id = ''s'', srv_name = ''srv''\<rparr>\<rparr>"

definition sample_env :: "nat env" where
  "sample_env =
     \<lparr>validate = (\<lambda>x. x = ''* * * * *''),
      executeTask = (\<lambda>t w. if t_id t = ''bad'' then (Inl ''boom'', Suc w) else (Inr (), Suc w)),
      clock = (\<lambda>w. w),
      sleep = (\<lambda>ms w. w + nat ms),
      newId = (\<lambda>w. (''new'', w))\<rparr>"

definition sample_group :: "string \<Rightarrow> int \<Rightarrow> task_group" where
  "sample_group mode d =
     \<lparr>g_id = ''g'', g_name = ''G'', g_description = None, g_cronExpression = ''* * * * *'',
      g_failureMode = mode, g_delayBetweenTasks = d, g_enabled = True, g_lastRun = None,
      g_lastStatus = None, g_lastError = None\<rparr>"

definition sample_members :: "(task_with_server \<times> int) list \<Rightarrow> task_group_member list" where
  "sample_members tos =
     map (\<lambda>(t, so). \<lparr>m_groupId = ''g'', m_taskId = t_id t, m_sortOrder = so\<rparr>) tos"

text \<open>The state with the members at the given sort positions, and at positions 0, 1, ...\<close>

definition sample_state_at :: "string \<Rightarrow> int \<Rightarrow> (task_with_server \<times> int) list \<Rightarrow> nat state" where
  "sample_state_at mode d tos =
     \<lparr>db = \<lparr>taskGroups = [sample_group mode d], taskGroupMembers = sample_members tos,
            tasks = map fst tos, taskGroupExecutions = []\<rparr>,
      scheduledGroups = [], cronTasks = [], effects = [], world = 0\<rparr>"

definition sample_state :: "string \<Rightarrow> int \<Rightarrow> task_with_server list \<Rightarrow> nat state" where
  "sample_state mode d ts = sample_state_at mode d (zip ts (map int [0 ..< length ts]))"

text \<open>
  Four enabled members in mode \<open>stop\<close> with the second one failing, three members in
  mode \<open>stop\<close> with the second one disabled, and three enabled members in mode
  \<open>continue\<close> with the second one failing; each with a delay of five seconds.
\<close>

definition stop_four :: "nat state" where
  "stop_four =
     sample_state ''stop'' 5
       [sample_task ''a'' True, sample_task ''bad'' True, sample_task ''c'' True,
        sample_task ''d'' True]"

definition second_disabled :: "nat state" where
  "second_disabled =
     sample_state ''stop'' 5
       [sample_task ''a'' True, sample_task ''b'' False, sample_task ''c'' True]"

definition three_enabled :: "nat state" where
  "three_enabled =
     sample_state ''continue'' 5
       [sample_task ''a'' True, sample_task ''bad'' True, sample_task ''c'' True]"

text \<open>The execution record and the state that a run of the group \<open>g\<close> returns.\<close>

definition run_of :: "nat state \<Rightarrow> task_group_execution" where
  "run_of s = projr (fst (executeGroup sample_env ''g'' s))"

definition end_of :: "nat state \<Rightarrow> nat state" where
  "end_of s = snd (executeGroup sample_env ''g'' s)"

text \<open>
  The groups of the database have distinct ids, and every scheduled group is a group of
  the database that is enabled.
\<close>

definition timers_enabled :: "'w state \<Rightarrow> bool" where
  "timers_enabled s =
     (distinct (map g_id (taskGroups (db s))) \<and>
      (\<forall>gid \<in> set (map fst (scheduledGroups s)).
          \<exists>g \<in> set (taskGroups (db s)). g_id g = gid \<and> g_enabled g))"

text \<open>
  The state of a service that has just been constructed over the sample database, and a
  group whose expression the sample validator rejects.
\<close>

definition bad_cron_group :: task_group where
  "bad_cron_group = (sample_group ''stop'' 0)\<lparr>g_cronExpression := ''often''\<rparr>"

definition sample_data :: create_data where
  "sample_data =
     \<lparr>cd_name = ''N'', cd_description = None, cd_cronExpression = ''* * * * *'',
      cd_failureMode = None, cd_delayBetweenTasks = None, cd_enabled = None,
      cd_taskIds = None\<rparr>"

definition sample_service :: "nat state" where
  "sample_service = sample_state ''stop'' 0 []"







section \<open>Properties of the loop\<close>

lemma process_member_results:
  "results (process_member e grp n i m r) = results r @ [new_result e grp m r]"
  by (simp add: process_member_def new_result_def Let_def split: prod.splits sum.splits)

lemma new_result_task:
  "r_taskId (new_result e grp m r) = t_id (m_task m)"
  "r_taskName (new_result e grp m r) = t_name (m_task m)"
  "r_serverId (new_result e grp m r) = t_serverId (m_task m)"
  "r_serverName (new_result e grp m r) = srv_name (t_server (m_task m))"
  by (simp_all add: process_member_def new_result_def skipped_result_def Let_def
      split: prod.splits sum.splits)

lemma new_result_disabled:
  "\<not> t_enabled (m_task m) \<Longrightarrow>
     r_status (new_result e grp m r) = Skipped \<and>
     r_error (new_result e grp m r) = Some ''Task is disabled''"
  by (simp add: process_member_def new_result_def skipped_result_def Let_def)

lemma new_result_stopped:
  "t_enabled (m_task m) \<Longrightarrow> failed r \<Longrightarrow> g_failureMode grp = ''stop'' \<Longrightarrow>
     r_status (new_result e grp m r) = Skipped \<and>
     r_error (new_result e grp m r) = Some ''Skipped due to previous task failure''"
  by (simp add: process_member_def new_result_def skipped_result_def Let_def)

lemma new_result_executed:
  "t_enabled (m_task m) \<Longrightarrow> \<not> (failed r \<and> g_failureMode grp = ''stop'') \<Longrightarrow>
     (case fst (executeTask e (m_task m) (r_world r)) of
        Inr u \<Rightarrow> r_status (new_result e grp m r) = Success \<and>
                 r_error (new_result e grp m r) = None
      | Inl msg \<Rightarrow> r_status (new_result e grp m r) = Failed \<and>
                   r_error (new_result e grp m r) = Some msg)"
  by (auto simp add: process_member_def new_result_def Let_def split: prod.splits sum.splits)

lemma process_member_failed:
  "failed (process_member e grp n i m r) =
     (failed r \<or> r_status (new_result e grp m r) = Failed)"
  by (auto simp add: process_member_def new_result_def skipped_result_def Let_def
      split: prod.splits sum.splits)

lemma process_member_effects:
  "r_effects (process_member e grp n i m r) =
     r_effects r @ member_effects grp n i (new_result e grp m r)"
  by (auto simp add: process_member_def new_result_def member_effects_def skipped_result_def
      Let_def split: prod.splits sum.splits)

lemma run_members_append:
  "run_members e grp n i (xs @ ys) r =
     run_members e grp n (i + length xs) ys (run_members e grp n i xs r)"
  by (induction xs arbitrary: i r) simp_all

lemma run_members_results:
  "\<exists>ys. results (run_members e grp n i ms r) = results r @ ys \<and> length ys = length ms"
proof (induction ms arbitrary: i r)
  case Nil
  show ?case by simp
next
  case (Cons m ms)
  from Cons.IH [of "Suc i" "process_member e grp n i m r"]
  obtain ys where
    "results (run_members e grp n (Suc i) ms (process_member e grp n i m r))
       = results (process_member e grp n i m r) @ ys"
    "length ys = length ms"
    by blast
  then show ?case
    by (simp add: process_member_results)
qed

lemma run_members_length:
  "length (results (run_members e grp n i ms r)) = length (results r) + length ms"
  using run_members_results [of e grp n i ms r] by auto

lemma run_members_take:
  "take (length (results r)) (results (run_members e grp n i ms r)) = results r"
  using run_members_results [of e grp n i ms r] by auto

lemma run_members_Cons_drop:
  "drop (length (results r)) (results (run_members e grp n i (m # ms) r)) =
     new_result e grp m r #
     drop (length (results (process_member e grp n i m r)))
       (results (run_members e grp n (Suc i) ms (process_member e grp n i m r)))"
proof -
  obtain ys where
    "results (run_members e grp n (Suc i) ms (process_member e grp n i m r))
       = results (process_member e grp n i m r) @ ys"
    using run_members_results by blast
  then show ?thesis
    by (simp add: process_member_results)
qed

lemma run_members_nth:
  assumes "k < length ms"
  shows "results (run_members e grp n i ms r) ! (length (results r) + k)
           = new_result e grp (ms ! k) (run_members e grp n i (take k ms) r)"
proof -
  let ?rk = "run_members e grp n i (take k ms) r"
  have ms: "ms = take k ms @ [ms ! k] @ drop (Suc k) ms"
    using assms by (simp add: id_take_nth_drop)
  have lk: "length (results ?rk) = length (results r) + k"
    using assms by (simp add: run_members_length)
  have "run_members e grp n i ms r
          = run_members e grp n (i + k + 1) (drop (Suc k) ms)
              (process_member e grp n (i + k) (ms ! k) ?rk)"
    using assms by (subst ms) (simp add: run_members_append del: append_take_drop_id)
  moreover obtain ys where
    "results (run_members e grp n (i + k + 1) (drop (Suc k) ms)
                (process_member e grp n (i + k) (ms ! k) ?rk))
       = results (process_member e grp n (i + k) (ms ! k) ?rk) @ ys"
    using run_members_results by blast
  ultimately have "results (run_members e grp n i ms r)
      = results ?rk @ [new_result e grp (ms ! k) ?rk] @ ys"
    by (simp add: process_member_results)
  then show ?thesis
    using lk by (simp add: nth_append)
qed

lemma run_members_prefix:
  assumes "k \<le> length ms"
  shows "results (run_members e grp n i (take k ms) r)
           = take (length (results r) + k) (results (run_members e grp n i ms r))"
proof -
  let ?rk = "run_members e grp n i (take k ms) r"
  have "run_members e grp n i ms r = run_members e grp n (i + k) (drop k ms) ?rk"
    using assms run_members_append [of e grp n i "take k ms" "drop k ms" r] by simp
  moreover have "length (results ?rk) = length (results r) + k"
    using assms by (simp add: run_members_length)
  ultimately show ?thesis
    using run_members_take [of ?rk e grp n "i + k" "drop k ms"] by simp
qed

lemma process_member_failed_ok:
  "failed_ok r \<Longrightarrow> failed_ok (process_member e grp n i m r)"
  by (auto simp add: failed_ok_def process_member_failed process_member_results)

lemma run_members_failed_ok:
  "failed_ok r \<Longrightarrow> failed_ok (run_members e grp n i ms r)"
  by (induction ms arbitrary: i r) (simp_all add: process_member_failed_ok)

lemma run_members_effects:
  "r_effects (run_members e grp n i ms r)
     = r_effects r @ concat (map (\<lambda>(j, res). member_effects grp n j res)
         (zip [i ..< i + length ms]
            (drop (length (results r)) (results (run_members e grp n i ms r)))))"
proof (induction ms arbitrary: i r)
  case Nil
  show ?case by simp
next
  case (Cons m ms)
  let ?r1 = "process_member e grp n i m r"
  have u: "[i ..< i + length (m # ms)] = i # [Suc i ..< Suc i + length ms]"
    by (subst upt_rec) simp
  show ?case
    by (simp only: run_members.simps Cons.IH [of "Suc i" ?r1]
          run_members_Cons_drop [unfolded run_members.simps] u process_member_effects)
       simp
qed

lemma run_members_corresponds:
  "list_all2 (\<lambda>res m. r_taskId res = t_id (m_task m) \<and> r_taskName res = t_name (m_task m) \<and>
                        r_serverId res = t_serverId (m_task m) \<and>
                        r_serverName res = srv_name (t_server (m_task m)))
     (drop (length (results r)) (results (run_members e grp n i ms r))) ms"
proof (induction ms arbitrary: i r)
  case Nil
  show ?case by (simp add: run_members_length)
next
  case (Cons m ms)
  show ?case
    by (simp only: run_members_Cons_drop list_all2_Cons new_result_task
          Cons.IH [of "process_member e grp n i m r" "Suc i"])
qed

lemma count_status_total:
  "count_status Success rs + count_status Failed rs + count_status Skipped rs = length rs"
proof (induction rs)
  case Nil
  show ?case by (simp add: count_status_def)
next
  case (Cons r rs)
  then show ?case
    by (cases "r_status r") (simp_all add: count_status_def)
qed

section \<open>Properties of the store\<close>

lemma update_row_fresh:
  "\<forall>y\<in>set xs. \<not> p y \<Longrightarrow> p x \<Longrightarrow> update_row p f (xs @ [x]) = Some (f x, xs @ [f x])"
  by (induction xs) simp_all




lemma getGroupWithTasks_None:
  "gid \<notin> set (map g_id (taskGroups d)) \<Longrightarrow> getGroupWithTasks d gid = None"
  by (auto simp add: getGroupWithTasks_def taskGroup_findUnique_def find_None_iff
      split: option.splits)

section \<open>What a finalized execution holds\<close>

lemma executeGroup_Inr:
  assumes "executeGroup e gid s = (Inr ex, s')"
  shows "\<exists>grp. getGroupWithTasks (db s) gid = Some grp \<and>
           x_taskResults ex = Some (results (run_before e grp s (length (sortedTasks grp)))) \<and>
           x_tasksCompleted ex =
             count_status Success (results (run_before e grp s (length (sortedTasks grp)))) \<and>
           x_tasksFailed ex =
             count_status Failed (results (run_before e grp s (length (sortedTasks grp)))) \<and>
           x_tasksSkipped ex =
             count_status Skipped (results (run_before e grp s (length (sortedTasks grp)))) \<and>
           x_status ex =
             final_status (x_tasksCompleted ex) (x_tasksFailed ex) (x_tasksSkipped ex) \<and>
           x_tasksTotal ex = length (taskMemberships grp) \<and>
           x_groupId ex = gid \<and>
           x_errorMessage ex = failed_message (x_tasksFailed ex) \<and>
           taskGroupExecutions (db s') = taskGroupExecutions (db s) @ [ex] \<and>
           world s' = r_world (run_before e grp s (length (sortedTasks grp))) \<and>
           effects s' = r_effects (run_before e grp s (length (sortedTasks grp))) @
              [Log Info (''Task group '' @ g_name grp @ '' completed: ''
                 @ show_nat (x_tasksCompleted ex) @ ''/''
                 @ show_nat (length (results (run_before e grp s (length (sortedTasks grp)))))
                 @ '' successful'')]"
proof -
  from assms obtain grp where g: "getGroupWithTasks (db s) gid = Some grp"
    by (auto simp add: executeGroup_def split: option.splits)
  obtain xid w1 where n: "newId e (world s) = (xid, w1)"
    by (cases "newId e (world s)")
  have fresh: "\<forall>y\<in>set (taskGroupExecutions (db s)). \<not> x_id y = xid"
    using assms g n
    by (auto simp add: executeGroup_def taskGroupExecution_create_def Let_def split: if_splits)
  have R: "run_before e grp s (length (sortedTasks grp))
        = run_members e grp (length (sort_key m_sortOrder (taskMemberships grp))) 0
            (sort_key m_sortOrder (taskMemberships grp))
            \<lparr>results = [], failed = False, r_world = w1,
             r_effects = effects s @ [Log Info (''Executing task group: '' @ g_name grp)]\<rparr>"
    by (simp add: run_before_def sortedTasks_def run_start_def n)
  have u: "\<And>f. update_row (\<lambda>x. x_id x = xid) f (taskGroupExecutions (db s) @ [x]) =
      Some (f x, taskGroupExecutions (db s) @ [f x])" if "x_id x = xid" for x
    by (rule update_row_fresh [OF fresh that])
  show ?thesis
    using assms g n fresh
    apply (intro exI [of _ grp])
    apply (simp only: R)
    apply (simp add: executeGroup_def taskGroupExecution_create_def taskGroupExecution_update_def
        taskGroup_update_def Let_def u split: option.splits prod.splits if_splits)
    apply auto
    done
qed


section \<open>The loop before iteration \<open>k\<close>\<close>

lemma run_before_Suc:
  assumes "k < length (sortedTasks grp)"
  shows "run_before e grp s (Suc k) =
           process_member e grp (length (sortedTasks grp)) k (sortedTasks grp ! k)
             (run_before e grp s k)"
  using assms
  by (simp add: run_before_def take_Suc_conv_app_nth run_members_append)

lemma run_before_length:
  "k \<le> length (sortedTasks grp) \<Longrightarrow> length (results (run_before e grp s k)) = k"
  by (simp add: run_before_def run_members_length run_start_def)

lemma run_before_results:
  assumes "k \<le> length (sortedTasks grp)"
  shows "results (run_before e grp s k) =
           take k (results (run_before e grp s (length (sortedTasks grp))))"
  using run_members_prefix [OF assms, of e grp "length (sortedTasks grp)" 0 "run_start e grp s"]
  by (simp add: run_before_def run_start_def)

lemma run_before_nth:
  assumes "k < length (sortedTasks grp)"
  shows "results (run_before e grp s (length (sortedTasks grp))) ! k =
           new_result e grp (sortedTasks grp ! k) (run_before e grp s k)"
  using run_members_nth [OF assms, of e grp "length (sortedTasks grp)" 0 "run_start e grp s"]
  by (simp add: run_before_def run_start_def)

lemma run_before_failed:
  assumes "k \<le> length (sortedTasks grp)"
  shows "failed (run_before e grp s k) =
           (\<exists>j<k. r_status (results (run_before e grp s (length (sortedTasks grp))) ! j) = Failed)"
proof -
  let ?rs = "results (run_before e grp s (length (sortedTasks grp)))"
  have "failed_ok (run_start e grp s)"
    by (simp add: failed_ok_def run_start_def)
  then have "failed_ok (run_before e grp s k)"
    unfolding run_before_def by (rule run_members_failed_ok)
  then have "failed (run_before e grp s k) = (Failed \<in> set (map r_status (take k ?rs)))"
    by (simp add: failed_ok_def run_before_results [OF assms])
  moreover have "(Failed \<in> set (map r_status (take k ?rs))) = (\<exists>j<k. r_status (?rs ! j) = Failed)"
  proof
    assume "Failed \<in> set (map r_status (take k ?rs))"
    then obtain j where "j < length (map r_status (take k ?rs))"
      "map r_status (take k ?rs) ! j = Failed"
      unfolding in_set_conv_nth by blast
    then have "j < k \<and> r_status (?rs ! j) = Failed"
      by simp
    then show "\<exists>j<k. r_status (?rs ! j) = Failed"
      by blast
  next
    assume "\<exists>j<k. r_status (?rs ! j) = Failed"
    then obtain j where j: "j < k" "r_status (?rs ! j) = Failed"
      by blast
    have "length ?rs = length (sortedTasks grp)"
      by (simp add: run_before_length)
    with j assms have "j < length (map r_status (take k ?rs))"
      "map r_status (take k ?rs) ! j = Failed"
      by simp_all
    then show "Failed \<in> set (map r_status (take k ?rs))"
      unfolding in_set_conv_nth by blast
  qed
  ultimately show ?thesis
    by simp
qed

lemma map_zip_upt: "map (\<lambda>(i, x). f i x) (zip [0 ..< length xs] xs) = map (\<lambda>i. f i (xs ! i)) [0 ..< length xs]"
  by (rule nth_equalityI) simp_all

lemma run_before_effects:
  "r_effects (run_before e grp s (length (sortedTasks grp))) =
     effects s @ [Log Info (''Executing task group: '' @ g_name grp)] @
     concat (map (\<lambda>i. member_effects grp (length (sortedTasks grp)) i
                        (results (run_before e grp s (length (sortedTasks grp))) ! i))
               [0 ..< length (sortedTasks grp)])"
proof -
  let ?n = "length (sortedTasks grp)"
  let ?rs = "results (run_before e grp s ?n)"
  have len: "length ?rs = ?n"
    by (simp add: run_before_length)
  have "r_effects (run_before e grp s ?n) =
          r_effects (run_start e grp s) @
          concat (map (\<lambda>(j, res). member_effects grp ?n j res) (zip [0 ..< ?n] ?rs))"
    using run_members_effects [of e grp ?n 0 "sortedTasks grp" "run_start e grp s"]
    by (simp add: run_before_def run_start_def)
  also have "map (\<lambda>(j, res). member_effects grp ?n j res) (zip [0 ..< ?n] ?rs) =
          map (\<lambda>i. member_effects grp ?n i (?rs ! i)) [0 ..< ?n]"
    using map_zip_upt [of "member_effects grp ?n" ?rs] by (simp add: len)
  finally show ?thesis
    by (simp add: run_start_def)
qed

text \<open>What a member's result is, from what the loop has recorded before it.\<close>

lemma result_disabled:
  assumes "k < length (sortedTasks grp)" "\<not> t_enabled (m_task (sortedTasks grp ! k))"
  shows "r_status (results (run_before e grp s (length (sortedTasks grp))) ! k) = Skipped \<and>
         r_error (results (run_before e grp s (length (sortedTasks grp))) ! k)
           = Some ''Task is disabled''"
  using assms by (simp add: run_before_nth new_result_disabled)

lemma result_stopped:
  assumes "k < length (sortedTasks grp)" "t_enabled (m_task (sortedTasks grp ! k))"
    "g_failureMode grp = ''stop''" "j < k"
    "r_status (results (run_before e grp s (length (sortedTasks grp))) ! j) = Failed"
  shows "r_status (results (run_before e grp s (length (sortedTasks grp))) ! k) = Skipped \<and>
         r_error (results (run_before e grp s (length (sortedTasks grp))) ! k)
           = Some ''Skipped due to previous task failure''"
proof -
  have "failed (run_before e grp s k)"
    using assms by (auto simp add: run_before_failed)
  then show ?thesis
    using assms by (simp add: run_before_nth new_result_stopped)
qed

lemma result_executed:
  assumes "k < length (sortedTasks grp)" "t_enabled (m_task (sortedTasks grp ! k))"
    "\<not> (failed (run_before e grp s k) \<and> g_failureMode grp = ''stop'')"
  shows "case fst (executeTask e (m_task (sortedTasks grp ! k)) (r_world (run_before e grp s k))) of
           Inr u \<Rightarrow>
             r_status (results (run_before e grp s (length (sortedTasks grp))) ! k) = Success \<and>
             r_error (results (run_before e grp s (length (sortedTasks grp))) ! k) = None
         | Inl msg \<Rightarrow>
             r_status (results (run_before e grp s (length (sortedTasks grp))) ! k) = Failed \<and>
             r_error (results (run_before e grp s (length (sortedTasks grp))) ! k) = Some msg"
  unfolding run_before_nth [OF assms(1)]
  using assms(2,3) by (rule new_result_executed)

lemma result_not_skipped:
  assumes "k < length (sortedTasks grp)" "t_enabled (m_task (sortedTasks grp ! k))"
    "\<not> (failed (run_before e grp s k) \<and> g_failureMode grp = ''stop'')"
  shows "r_status (results (run_before e grp s (length (sortedTasks grp))) ! k) \<noteq> Skipped"
  using result_executed [OF assms] by (auto split: sum.splits)

lemma member_effects_call:
  "(ExecuteTask k x \<in> set (member_effects grp n i res)) =
     (r_status res \<noteq> Skipped \<and> k = i \<and> x = r_taskId res)"
  by (auto simp add: member_effects_def)

lemma executed_iff:
  "(ExecuteTask k x \<in> set (r_effects (run_before e grp s (length (sortedTasks grp))))) =
     (ExecuteTask k x \<in> set (effects s) \<or>
      k < length (sortedTasks grp) \<and>
      r_status (results (run_before e grp s (length (sortedTasks grp))) ! k) \<noteq> Skipped \<and>
      x = r_taskId (results (run_before e grp s (length (sortedTasks grp))) ! k))"
  by (auto simp add: run_before_effects member_effects_call)


section \<open>The effects of a finalized execution\<close>

lemma executeGroup_group:
  assumes "executeGroup e gid s = (Inr ex, s')" "getGroupWithTasks (db s) gid = Some grp"
  shows "x_taskResults ex = Some (results (run_before e grp s (length (sortedTasks grp))))"
    and "new_effects s s' =
           Log Info (''Executing task group: '' @ g_name grp) #
           concat (map (\<lambda>i. member_effects grp (length (sortedTasks grp)) i
                              (results (run_before e grp s (length (sortedTasks grp))) ! i))
                     [0 ..< length (sortedTasks grp)]) @
           [Log Info (''Task group '' @ g_name grp @ '' completed: ''
              @ show_nat (x_tasksCompleted ex) @ ''/''
              @ show_nat (length (results (run_before e grp s (length (sortedTasks grp)))))
              @ '' successful'')]"
  using executeGroup_Inr [OF assms(1)] assms(2)
  by (auto simp add: new_effects_def run_before_effects)

lemma executeGroup_calls:
  assumes "executeGroup e gid s = (Inr ex, s')" "getGroupWithTasks (db s) gid = Some grp"
  shows "(ExecuteTask k x \<in> set (new_effects s s')) =
     (k < length (sortedTasks grp) \<and>
      r_status (results (run_before e grp s (length (sortedTasks grp))) ! k) \<noteq> Skipped \<and>
      x = r_taskId (results (run_before e grp s (length (sortedTasks grp))) ! k))"
  by (auto simp add: executeGroup_group(2) [OF assms] member_effects_call)


section \<open>Counting the delays\<close>

lemma filter_member_effects:
  "filter (\<lambda>ef. \<not> is_log ef) (member_effects grp n i res) =
     (if r_status res = Skipped then []
      else ExecuteTask i (r_taskId res) #
           (if Suc i < n \<and> 0 < g_delayBetweenTasks grp
            then [Delay (g_delayBetweenTasks grp * 1000)] else []))"
  by (auto simp add: member_effects_def is_log_def)

lemma delays_member_effects:
  "length (filter is_delay (member_effects grp n i res)) =
     (if r_status res \<noteq> Skipped \<and> Suc i < n \<and> 0 < g_delayBetweenTasks grp then 1 else 0)"
  by (auto simp add: member_effects_def is_delay_def)

lemma delay_member_effects:
  "Delay ms \<in> set (member_effects grp n i res) \<Longrightarrow> ms = g_delayBetweenTasks grp * 1000"
  by (auto simp add: member_effects_def split: if_splits)

lemma sum_list_indicator:
  "sum_list (map (\<lambda>i. if P i then 1 else 0) xs) = length (filter P xs)"
  by (induction xs) simp_all

lemma filter_upt_not_last:
  "filter (\<lambda>i. Q i \<and> Suc i < n) [0 ..< n] = filter Q [0 ..< n - 1]"
proof (cases n)
  case 0
  then show ?thesis by simp
next
  case (Suc m)
  have "filter (\<lambda>i. Q i \<and> Suc i < Suc m) [0 ..< m] = filter Q [0 ..< m]"
    by (rule filter_cong) simp_all
  then show ?thesis
    using Suc by simp
qed

lemma delays_concat:
  "length (filter is_delay (concat (map (\<lambda>i. member_effects grp n i (rs ! i)) [0 ..< n]))) =
     (if 0 < g_delayBetweenTasks grp
      then length (filter (\<lambda>i. r_status (rs ! i) \<noteq> Skipped) [0 ..< n - 1]) else 0)"
proof -
  have "length (filter is_delay (concat (map (\<lambda>i. member_effects grp n i (rs ! i)) [0 ..< n]))) =
      sum_list (map (\<lambda>i. if r_status (rs ! i) \<noteq> Skipped \<and> Suc i < n \<and>
                               0 < g_delayBetweenTasks grp then 1 else 0) [0 ..< n])"
    by (simp add: filter_concat length_concat comp_def delays_member_effects)
  also have "\<dots> = length (filter (\<lambda>i. r_status (rs ! i) \<noteq> Skipped \<and> Suc i < n \<and>
                               0 < g_delayBetweenTasks grp) [0 ..< n])"
    by (rule sum_list_indicator)
  also have "\<dots> = (if 0 < g_delayBetweenTasks grp
      then length (filter (\<lambda>i. r_status (rs ! i) \<noteq> Skipped) [0 ..< n - 1]) else 0)"
    using filter_upt_not_last [of "\<lambda>i. r_status (rs ! i) \<noteq> Skipped" n]
    by simp
  finally show ?thesis .
qed


section \<open>Further properties of one iteration\<close>

lemma process_member_disabled:
  "\<not> t_enabled (m_task m) \<Longrightarrow>
     process_member e grp n i m r =
       r\<lparr>results := results r @ [skipped_result e (r_world r) (m_task m) ''Task is disabled'']\<rparr>"
  by (simp add: process_member_def)


lemma count_status_map:
  "count_status st rs = length (filter (\<lambda>x. x = st) (map r_status rs))"
  by (simp add: count_status_def filter_map comp_def)

lemma list_of_four:
  "length xs = 4 \<Longrightarrow> xs = [xs ! 0, xs ! 1, xs ! 2, xs ! 3]"
  by (auto simp add: eval_nat_numeral length_Suc_conv)


section \<open>Evaluation of the concrete runs\<close>

lemmas sample_defs =
  sample_task_def sample_env_def sample_group_def sample_members_def sample_state_at_def
  sample_state_def

lemmas store_defs =
  getGroupWithTasks_def taskGroup_findUnique_def include_task_def taskGroupExecution_create_def
  taskGroupExecution_update_def taskGroup_update_def List.map_filter_def

lemmas run_defs =
  executeGroup_def process_member_def skipped_result_def final_status_def count_status_def
  failed_message_def Let_def

lemma stop_four_run:
  "executeGroup sample_env ''g'' stop_four = (Inr (run_of stop_four), end_of stop_four)"
  "map r_taskId (the (x_taskResults (run_of stop_four))) = [''a'', ''bad'', ''c'', ''d'']"
  "map r_status (the (x_taskResults (run_of stop_four))) = [Success, Failed, Skipped, Skipped]"
  "map r_error (the (x_taskResults (run_of stop_four))) =
     [None, Some ''boom'', Some ''Skipped due to previous task failure'',
      Some ''Skipped due to previous task failure'']"
  "filter (\<lambda>ef. \<not> is_log ef) (effects (end_of stop_four)) =
     [ExecuteTask 0 ''a'', Delay 5000, ExecuteTask 1 ''bad'', Delay 5000]"
proof -
  have run: "\<exists>ex s'. executeGroup sample_env ''g'' stop_four = (Inr ex, s') \<and>
      map r_taskId (the (x_taskResults ex)) = [''a'', ''bad'', ''c'', ''d''] \<and>
      map r_status (the (x_taskResults ex)) = [Success, Failed, Skipped, Skipped] \<and>
      map r_error (the (x_taskResults ex)) =
        [None, Some ''boom'', Some ''Skipped due to previous task failure'',
      Some ''Skipped due to previous task failure''] \<and>
      filter (\<lambda>ef. \<not> is_log ef) (effects s') =
        [ExecuteTask 0 ''a'', Delay 5000, ExecuteTask 1 ''bad'', Delay 5000]"
    by (simp add: stop_four_def sample_defs store_defs run_defs is_log_def)
  show "executeGroup sample_env ''g'' stop_four = (Inr (run_of stop_four), end_of stop_four)"
    using run unfolding run_of_def end_of_def by (elim exE conjE) simp
  show "map r_taskId (the (x_taskResults (run_of stop_four))) = [''a'', ''bad'', ''c'', ''d'']"
    using run unfolding run_of_def end_of_def by (elim exE conjE) simp
  show "map r_status (the (x_taskResults (run_of stop_four))) = [Success, Failed, Skipped, Skipped]"
    using run unfolding run_of_def end_of_def by (elim exE conjE) simp
  show "map r_error (the (x_taskResults (run_of stop_four))) =
     [None, Some ''boom'', Some ''Skipped due to previous task failure'',
      Some ''Skipped due to previous task failure'']"
    using run unfolding run_of_def end_of_def by (elim exE conjE) simp
  show "filter (\<lambda>ef. \<not> is_log ef) (effects (end_of stop_four)) =
     [ExecuteTask 0 ''a'', Delay 5000, ExecuteTask 1 ''bad'', Delay 5000]"
    using run unfolding run_of_def end_of_def by (elim exE conjE) simp
qed

lemma second_disabled_run:
  "executeGroup sample_env ''g'' second_disabled = (Inr (run_of second_disabled), end_of second_disabled)"
  "map r_taskId (the (x_taskResults (run_of second_disabled))) = [''a'', ''b'', ''c'']"
  "map r_status (the (x_taskResults (run_of second_disabled))) = [Success, Skipped, Success]"
  "map r_error (the (x_taskResults (run_of second_disabled))) =
     [None, Some ''Task is disabled'', None]"
  "filter (\<lambda>ef. \<not> is_log ef) (effects (end_of second_disabled)) =
     [ExecuteTask 0 ''a'', Delay 5000, ExecuteTask 2 ''c'']"
proof -
  have run: "\<exists>ex s'. executeGroup sample_env ''g'' second_disabled = (Inr ex, s') \<and>
      map r_taskId (the (x_taskResults ex)) = [''a'', ''b'', ''c''] \<and>
      map r_status (the (x_taskResults ex)) = [Success, Skipped, Success] \<and>
      map r_error (the (x_taskResults ex)) =
        [None, Some ''Task is disabled'', None] \<and>
      filter (\<lambda>ef. \<not> is_log ef) (effects s') =
        [ExecuteTask 0 ''a'', Delay 5000, ExecuteTask 2 ''c'']"
    by (simp add: second_disabled_def sample_defs store_defs run_defs is_log_def)
  show "executeGroup sample_env ''g'' second_disabled = (Inr (run_of second_disabled), end_of second_disabled)"
    using run unfolding run_of_def end_of_def by (elim exE conjE) simp
  show "map r_taskId (the (x_taskResults (run_of second_disabled))) = [''a'', ''b'', ''c'']"
    using run unfolding run_of_def end_of_def by (elim exE conjE) simp
  show "map r_status (the (x_taskResults (run_of second_disabled))) = [Success, Skipped, Success]"
    using run unfolding run_of_def end_of_def by (elim exE conjE) simp
  show "map r_error (the (x_taskResults (run_of second_disabled))) =
     [None, Some ''Task is disabled'', None]"
    using run unfolding run_of_def end_of_def by (elim exE conjE) simp
  show "filter (\<lambda>ef. \<not> is_log ef) (effects (end_of second_disabled)) =
     [ExecuteTask 0 ''a'', Delay 5000, ExecuteTask 2 ''c'']"
    using run unfolding run_of_def end_of_def by (elim exE conjE) simp
qed

lemma three_enabled_run:
  "executeGroup sample_env ''g'' three_enabled = (Inr (run_of three_enabled), end_of three_enabled)"
  "map r_taskId (the (x_taskResults (run_of three_enabled))) = [''a'', ''bad'', ''c'']"
  "map r_status (the (x_taskResults (run_of three_enabled))) = [Success, Failed, Success]"
  "map r_error (the (x_taskResults (run_of three_enabled))) =
     [None, Some ''boom'', None]"
  "filter (\<lambda>ef. \<not> is_log ef) (effects (end_of three_enabled)) =
     [ExecuteTask 0 ''a'', Delay 5000, ExecuteTask 1 ''bad'', Delay 5000, ExecuteTask 2 ''c'']"
proof -
  have run: "\<exists>ex s'. executeGroup sample_env ''g'' three_enabled = (Inr ex, s') \<and>
      map r_taskId (the (x_taskResults ex)) = [''a'', ''bad'', ''c''] \<and>
      map r_status (the (x_taskResults ex)) = [Success, Failed, Success] \<and>
      map r_error (the (x_taskResults ex)) =
        [None, Some ''boom'', None] \<and>
      filter (\<lambda>ef. \<not> is_log ef) (effects s') =
        [ExecuteTask 0 ''a'', Delay 5000, ExecuteTask 1 ''bad'', Delay 5000, ExecuteTask 2 ''c'']"
    by (simp add: three_enabled_def sample_defs store_defs run_defs is_log_def)
  show "executeGroup sample_env ''g'' three_enabled = (Inr (run_of three_enabled), end_of three_enabled)"
    using run unfolding run_of_def end_of_def by (elim exE conjE) simp
  show "map r_taskId (the (x_taskResults (run_of three_enabled))) = [''a'', ''bad'', ''c'']"
    using run unfolding run_of_def end_of_def by (elim exE conjE) simp
  show "map r_status (the (x_taskResults (run_of three_enabled))) = [Success, Failed, Success]"
    using run unfolding run_of_def end_of_def by (elim exE conjE) simp
  show "map r_error (the (x_taskResults (run_of three_enabled))) =
     [None, Some ''boom'', None]"
    using run unfolding run_of_def end_of_def by (elim exE conjE) simp
  show "filter (\<lambda>ef. \<not> is_log ef) (effects (end_of three_enabled)) =
     [ExecuteTask 0 ''a'', Delay 5000, ExecuteTask 1 ''bad'', Delay 5000, ExecuteTask 2 ''c'']"
    using run unfolding run_of_def end_of_def by (elim exE conjE) simp
qed

lemma stop_four_group:
  "\<exists>grp. getGroupWithTasks (db stop_four) ''g'' = Some grp \<and> g_failureMode grp = ''stop'' \<and>
     g_delayBetweenTasks grp = 5 \<and> length (sortedTasks grp) = 4 \<and>
     (\<forall>k<4. t_enabled (m_task (sortedTasks grp ! k)))"
  by (simp add: stop_four_def sample_defs store_defs sortedTasks_def eval_nat_numeral
      All_less_Suc)

lemma second_disabled_group:
  "\<exists>grp. getGroupWithTasks (db second_disabled) ''g'' = Some grp \<and>
     g_failureMode grp = ''stop'' \<and> g_delayBetweenTasks grp = 5 \<and>
     length (sortedTasks grp) = 3 \<and> \<not> t_enabled (m_task (sortedTasks grp ! 1)) \<and>
     t_enabled (m_task (sortedTasks grp ! 2))"
  by (simp add: second_disabled_def sample_defs store_defs sortedTasks_def eval_nat_numeral)

lemma three_enabled_group:
  "\<exists>grp. getGroupWithTasks (db three_enabled) ''g'' = Some grp \<and>
     g_failureMode grp = ''continue'' \<and> g_delayBetweenTasks grp = 5 \<and>
     length (sortedTasks grp) = 3 \<and> t_enabled (m_task (sortedTasks grp ! 1)) \<and>
     t_id (m_task (sortedTasks grp ! 1)) = ''bad''"
  by (simp add: three_enabled_def sample_defs store_defs sortedTasks_def eval_nat_numeral)

lemma sample_start:
  "effects stop_four = []" "effects second_disabled = []" "effects three_enabled = []"
  "taskGroupExecutions (db three_enabled) = []"
  by (simp_all add: stop_four_def second_disabled_def three_enabled_def sample_defs)

lemma filter_delay_log:
  "filter is_delay (filter (\<lambda>ef. \<not> is_log ef) xs) = filter is_delay xs"
  by (induction xs) (auto simp add: is_delay_def is_log_def split: effect.splits)


section \<open>Properties of the registry\<close>

lemma cron_stop_length [simp]: "length (cron_stop h ts) = length ts"
  by (simp add: cron_stop_def)

lemma cron_stop_nth:
  "i < length ts \<Longrightarrow>
     cron_stop h ts ! i = (if i = h then (ts ! i)\<lparr>ct_running := False\<rparr> else ts ! i)"
  by (simp add: cron_stop_def)

lemma cron_stop_running:
  "i < length ts \<Longrightarrow> ct_running (cron_stop h ts ! i) = (ct_running (ts ! i) \<and> i \<noteq> h)"
  by (auto simp add: cron_stop_nth)

lemma cron_stop_groupId:
  "i < length ts \<Longrightarrow> ct_groupId (cron_stop h ts ! i) = ct_groupId (ts ! i)"
  by (simp add: cron_stop_nth)

lemma registry_ok_map_of:
  "registry_ok s =
     (distinct (map fst (scheduledGroups s)) \<and>
      (\<forall>gid h. map_of (scheduledGroups s) gid = Some h \<longrightarrow>
          h < length (cronTasks s) \<and> ct_running (cronTasks s ! h) \<and>
          ct_groupId (cronTasks s ! h) = gid) \<and>
      (\<forall>h < length (cronTasks s).
          ct_running (cronTasks s ! h) \<longrightarrow>
          map_of (scheduledGroups s) (ct_groupId (cronTasks s ! h)) = Some h))"
  unfolding registry_ok_def by (cases "distinct (map fst (scheduledGroups s))") auto

lemma live_timers_iff:
  "(h \<in> set (live_timers s gid)) =
     (h < length (cronTasks s) \<and> ct_running (cronTasks s ! h) \<and>
      ct_groupId (cronTasks s ! h) = gid)"
  by (auto simp add: live_timers_def)

lemma distinct_live_timers: "distinct (live_timers s gid)"
  by (simp add: live_timers_def)

lemma distinct_all_equal:
  assumes "distinct xs" "\<forall>x\<in>set xs. x = a"
  shows "length xs \<le> 1"
proof (cases xs)
  case Nil
  then show ?thesis by simp
next
  case (Cons y ys)
  have "ys = []"
  proof (rule ccontr)
    assume "ys \<noteq> []"
    then obtain z where "z \<in> set ys"
      by (cases ys) auto
    with assms Cons show False
      by auto
  qed
  with Cons show ?thesis
    by simp
qed


lemma registry_ok_one_live:
  assumes "registry_ok s"
  shows "length (live_timers s gid) \<le> 1"
proof (cases "live_timers s gid")
  case Nil
  then show ?thesis by simp
next
  case (Cons a as)
  have "\<forall>h\<in>set (live_timers s gid). map_of (scheduledGroups s) gid = Some h"
    using assms by (auto simp add: registry_ok_map_of live_timers_iff)
  then have "\<forall>h\<in>set (live_timers s gid). h = a"
    using Cons by auto
  with distinct_live_timers show ?thesis
    by (rule distinct_all_equal)
qed



lemma live_timers_cong:
  "cronTasks s' = cronTasks s \<Longrightarrow> live_timers s' gid = live_timers s gid"
  by (simp add: live_timers_def)

lemma registry_okI:
  assumes "scheduledGroups s = reg" "cronTasks s = ts"
    and "distinct (map fst reg)"
    and "\<And>g i. map_of reg g = Some i \<Longrightarrow>
          i < length ts \<and> ct_running (ts ! i) \<and> ct_groupId (ts ! i) = g"
    and "\<And>i. i < length ts \<Longrightarrow> ct_running (ts ! i) \<Longrightarrow>
          map_of reg (ct_groupId (ts ! i)) = Some i"
  shows "registry_ok s"
  unfolding registry_ok_map_of using assms by blast

lemma registry_okD:
  assumes "registry_ok s"
  shows "distinct (map fst (scheduledGroups s))"
    and "\<And>g i. map_of (scheduledGroups s) g = Some i \<Longrightarrow>
          i < length (cronTasks s) \<and> ct_running (cronTasks s ! i) \<and>
          ct_groupId (cronTasks s ! i) = g"
    and "\<And>i. i < length (cronTasks s) \<Longrightarrow> ct_running (cronTasks s ! i) \<Longrightarrow>
          map_of (scheduledGroups s) (ct_groupId (cronTasks s ! i)) = Some i"
  using assms unfolding registry_ok_map_of by blast+

lemma stop_existing_ok:
  assumes "registry_ok s"
  shows "registry_ok (stop_existing gid s)"
proof (cases "map_of (scheduledGroups s) gid")
  case None
  then show ?thesis
    using assms by (simp add: stop_existing_def)
next
  case (Some h)
  note ok = registry_okD [OF assms]
  have h: "h < length (cronTasks s)" "ct_groupId (cronTasks s ! h) = gid"
    using ok(2) [OF Some] by simp_all
  have s': "stop_existing gid s =
      s\<lparr>cronTasks := cron_stop h (cronTasks s),
        scheduledGroups := AList.delete gid (scheduledGroups s)\<rparr>"
    using Some by (simp add: stop_existing_def)
  show ?thesis
  proof (rule registry_okI)
    show "scheduledGroups (stop_existing gid s) = AList.delete gid (scheduledGroups s)"
      by (simp add: s')
    show "cronTasks (stop_existing gid s) = cron_stop h (cronTasks s)"
      by (simp add: s')
    show "distinct (map fst (AList.delete gid (scheduledGroups s)))"
      using ok(1) by (simp add: distinct_delete)
  next
    fix g i
    assume "map_of (AList.delete gid (scheduledGroups s)) g = Some i"
    then have g: "g \<noteq> gid" "map_of (scheduledGroups s) g = Some i"
      by (auto simp add: delete_conv' split: if_splits)
    from ok(2) [OF g(2)] have i: "i < length (cronTasks s)" "ct_running (cronTasks s ! i)"
      "ct_groupId (cronTasks s ! i) = g"
      by simp_all
    with g(1) h have "i \<noteq> h"
      by auto
    with i show "i < length (cron_stop h (cronTasks s)) \<and>
        ct_running (cron_stop h (cronTasks s) ! i) \<and>
        ct_groupId (cron_stop h (cronTasks s) ! i) = g"
      by (simp add: cron_stop_nth)
  next
    fix i
    assume "i < length (cron_stop h (cronTasks s))"
      and "ct_running (cron_stop h (cronTasks s) ! i)"
    then have i: "i < length (cronTasks s)" "ct_running (cronTasks s ! i)" "i \<noteq> h"
      by (auto simp add: cron_stop_running)
    from ok(3) [OF i(1,2)]
    have m: "map_of (scheduledGroups s) (ct_groupId (cronTasks s ! i)) = Some i" .
    have "ct_groupId (cronTasks s ! i) \<noteq> gid"
      using m Some i(3) by auto
    with m i show "map_of (AList.delete gid (scheduledGroups s))
        (ct_groupId (cron_stop h (cronTasks s) ! i)) = Some i"
      by (simp add: cron_stop_nth delete_conv')
  qed
qed

lemma stop_existing_entry:
  "map_of (scheduledGroups (stop_existing gid s)) gid = None"
  by (cases "map_of (scheduledGroups s) gid") (simp_all add: stop_existing_def delete_conv')

lemma stop_existing_length [simp]:
  "length (cronTasks (stop_existing gid s)) = length (cronTasks s)"
  by (cases "map_of (scheduledGroups s) gid") (simp_all add: stop_existing_def)


lemma stop_existing_old_handle:
  assumes "map_of (scheduledGroups s) gid = Some h" "h < length (cronTasks s)"
  shows "\<not> ct_running (cronTasks (stop_existing gid s) ! h)"
  using assms by (simp add: stop_existing_def cron_stop_nth)

lemma stop_existing_fields [simp]:
  "db (stop_existing gid s) = db s" "effects (stop_existing gid s) = effects s"
  "world (stop_existing gid s) = world s"
  by (cases "map_of (scheduledGroups s) gid"; simp add: stop_existing_def)+


lemma scheduleGroup_invalid:
  "\<not> validate e (g_cronExpression grp) \<Longrightarrow>
     scheduleGroup e grp s =
       (Inr (), s\<lparr>effects := effects s @
          [Log Err (''Invalid cron expression for task group '' @ g_name grp @ '': ''
                      @ g_cronExpression grp)]\<rparr>)"
  by (simp add: scheduleGroup_def)

lemma scheduleGroup_valid:
  "validate e (g_cronExpression grp) \<Longrightarrow>
     scheduleGroup e grp s =
       (Inr (), (stop_existing (g_id grp) s)
          \<lparr>cronTasks := cronTasks (stop_existing (g_id grp) s) @
             [\<lparr>ct_expression = g_cronExpression grp, ct_groupId = g_id grp,
               ct_timezone = ''UTC'', ct_running = True\<rparr>],
           scheduledGroups := AList.update (g_id grp) (length (cronTasks s))
             (scheduledGroups (stop_existing (g_id grp) s)),
           effects := effects s @
             [Log Info (''Scheduled task group: '' @ g_name grp @ '' (''
                          @ g_cronExpression grp @ '')'')]\<rparr>)"
  by (simp add: scheduleGroup_def cron_schedule_def Let_def)

lemma scheduleGroup_ok:
  assumes "registry_ok s"
  shows "registry_ok (snd (scheduleGroup e grp s))"
proof (cases "validate e (g_cronExpression grp)")
  case False
  then show ?thesis
    using assms by (simp add: scheduleGroup_invalid registry_ok_def)
next
  case True
  let ?s1 = "stop_existing (g_id grp) s"
  let ?new = "\<lparr>ct_expression = g_cronExpression grp, ct_groupId = g_id grp,
               ct_timezone = ''UTC'', ct_running = True\<rparr>"
  have ok1: "registry_ok ?s1"
    using assms by (rule stop_existing_ok)
  note ok = registry_okD [OF ok1]
  have none: "map_of (scheduledGroups ?s1) (g_id grp) = None"
    by (rule stop_existing_entry)
  show ?thesis
  proof (rule registry_okI)
    show "scheduledGroups (snd (scheduleGroup e grp s)) =
        AList.update (g_id grp) (length (cronTasks s)) (scheduledGroups ?s1)"
      using True by (simp add: scheduleGroup_valid)
    show "cronTasks (snd (scheduleGroup e grp s)) = cronTasks ?s1 @ [?new]"
      using True by (simp add: scheduleGroup_valid)
    show "distinct (map fst (AList.update (g_id grp) (length (cronTasks s)) (scheduledGroups ?s1)))"
      using ok(1) by (simp add: distinct_update)
  next
    fix g i
    assume a: "map_of (AList.update (g_id grp) (length (cronTasks s)) (scheduledGroups ?s1)) g
        = Some i"
    show "i < length (cronTasks ?s1 @ [?new]) \<and> ct_running ((cronTasks ?s1 @ [?new]) ! i) \<and>
        ct_groupId ((cronTasks ?s1 @ [?new]) ! i) = g"
    proof (cases "g = g_id grp")
      case True
      with a have "i = length (cronTasks s)"
        by (simp add: update_conv')
      with True show ?thesis
        by (simp add: nth_append)
    next
      case False
      with a have "map_of (scheduledGroups ?s1) g = Some i"
        by (simp add: update_conv')
      from ok(2) [OF this] show ?thesis
        by (simp add: nth_append)
    qed
  next
    fix i
    assume i: "i < length (cronTasks ?s1 @ [?new])" "ct_running ((cronTasks ?s1 @ [?new]) ! i)"
    show "map_of (AList.update (g_id grp) (length (cronTasks s)) (scheduledGroups ?s1))
        (ct_groupId ((cronTasks ?s1 @ [?new]) ! i)) = Some i"
    proof (cases "i < length (cronTasks ?s1)")
      case True
      with i(2) have r: "ct_running (cronTasks ?s1 ! i)"
        by (simp add: nth_append)
      from ok(3) [OF True r]
      have m: "map_of (scheduledGroups ?s1) (ct_groupId (cronTasks ?s1 ! i)) = Some i" .
      with none have "ct_groupId (cronTasks ?s1 ! i) \<noteq> g_id grp"
        by auto
      with m True show ?thesis
        by (simp add: nth_append update_conv')
    next
      case False
      with i(1) have "i = length (cronTasks s)"
        by simp
      then show ?thesis
        by (simp add: nth_append update_conv')
    qed
  qed
qed

lemma scheduleGroup_armed:
  assumes "registry_ok s" "validate e (g_cronExpression grp)"
  shows "live_timers (snd (scheduleGroup e grp s)) (g_id grp) = [length (cronTasks s)]"
    and "map_of (scheduledGroups (snd (scheduleGroup e grp s))) (g_id grp)
           = Some (length (cronTasks s))"
    and "length (cronTasks (snd (scheduleGroup e grp s))) = Suc (length (cronTasks s))"
    and "cronTasks (snd (scheduleGroup e grp s)) ! length (cronTasks s) =
           \<lparr>ct_expression = g_cronExpression grp, ct_groupId = g_id grp,
            ct_timezone = ''UTC'', ct_running = True\<rparr>"
    and "map_of (scheduledGroups s) (g_id grp) = Some h \<Longrightarrow>
           \<not> ct_running (cronTasks (snd (scheduleGroup e grp s)) ! h)"
proof -
  let ?s' = "snd (scheduleGroup e grp s)"
  let ?s1 = "stop_existing (g_id grp) s"
  have ts: "cronTasks ?s' = cronTasks ?s1 @
      [\<lparr>ct_expression = g_cronExpression grp, ct_groupId = g_id grp,
        ct_timezone = ''UTC'', ct_running = True\<rparr>]"
    using assms(2) by (simp add: scheduleGroup_valid)
  show m: "map_of (scheduledGroups ?s') (g_id grp) = Some (length (cronTasks s))"
    using assms(2) by (simp add: scheduleGroup_valid update_conv')
  show len: "length (cronTasks ?s') = Suc (length (cronTasks s))"
    by (simp add: ts)
  show new: "cronTasks ?s' ! length (cronTasks s) =
      \<lparr>ct_expression = g_cronExpression grp, ct_groupId = g_id grp,
       ct_timezone = ''UTC'', ct_running = True\<rparr>"
    by (simp add: ts nth_append)
  have ok': "registry_ok ?s'"
    using assms(1) by (rule scheduleGroup_ok)
  have "length (cronTasks s) \<in> set (live_timers ?s' (g_id grp))"
    by (simp add: live_timers_iff new len)
  moreover have "length (live_timers ?s' (g_id grp)) \<le> 1"
    using ok' by (rule registry_ok_one_live)
  ultimately show "live_timers ?s' (g_id grp) = [length (cronTasks s)]"
    by (cases "live_timers ?s' (g_id grp)") auto
  show "\<not> ct_running (cronTasks ?s' ! h)" if "map_of (scheduledGroups s) (g_id grp) = Some h"
  proof -
    have h: "h < length (cronTasks s)"
      using registry_okD(2) [OF assms(1) that] by simp
    then have "\<not> ct_running (cronTasks ?s1 ! h)"
      using that by (intro stop_existing_old_handle)
    then show ?thesis
      using h by (simp add: ts nth_append)
  qed
qed


section \<open>The registry under the operations of the service\<close>

lemma registry_ok_fields [simp]:
  "registry_ok (s\<lparr>db := d\<rparr>) = registry_ok s"
  "registry_ok (s\<lparr>effects := ef\<rparr>) = registry_ok s"
  "registry_ok (s\<lparr>world := w\<rparr>) = registry_ok s"
  by (simp_all add: registry_ok_def)

lemma live_timers_fields [simp]:
  "live_timers (s\<lparr>db := d\<rparr>) gid = live_timers s gid"
  "live_timers (s\<lparr>effects := ef\<rparr>) gid = live_timers s gid"
  "live_timers (s\<lparr>world := w\<rparr>) gid = live_timers s gid"
  by (simp_all add: live_timers_def)















lemma addTask_state:
  "scheduledGroups (snd (addTask groupId taskId so s)) = scheduledGroups s \<and>
   cronTasks (snd (addTask groupId taskId so s)) = cronTasks s \<and>
   taskGroups (db (snd (addTask groupId taskId so s))) = taskGroups (db s) \<and>
   world (snd (addTask groupId taskId so s)) = world s"
  by (auto simp add: addTask_def taskGroupMember_create_def Let_def split: sum.splits)

lemma add_tasks_state:
  "scheduledGroups (snd (add_tasks groupId i taskIds s)) = scheduledGroups s \<and>
   cronTasks (snd (add_tasks groupId i taskIds s)) = cronTasks s \<and>
   taskGroups (db (snd (add_tasks groupId i taskIds s))) = taskGroups (db s) \<and>
   world (snd (add_tasks groupId i taskIds s)) = world s"
proof (induction taskIds arbitrary: i s)
  case Nil
  show ?case by simp
next
  case (Cons t ts)
  obtain r s1 where a: "addTask groupId t (Some (int i)) s = (r, s1)"
    by (cases "addTask groupId t (Some (int i)) s")
  show ?case
    using addTask_state [of groupId t "Some (int i)" s] Cons [of "Suc i" s1]
    by (cases r) (simp_all add: a)
qed


lemma scheduleGroup_new:
  assumes "validate e (g_cronExpression grp)"
  shows "cronTasks (snd (scheduleGroup e grp s)) =
           cronTasks (stop_existing (g_id grp) s) @
           [\<lparr>ct_expression = g_cronExpression grp, ct_groupId = g_id grp,
             ct_timezone = ''UTC'', ct_running = True\<rparr>]"
    and "map_of (scheduledGroups (snd (scheduleGroup e grp s))) (g_id grp)
           = Some (length (cronTasks s))"
  using assms by (simp_all add: scheduleGroup_valid update_conv')

lemma scheduleGroup_db [simp]:
  "db (snd (scheduleGroup e grp s)) = db s" "world (snd (scheduleGroup e grp s)) = world s"
  by (cases "validate e (g_cronExpression grp)";
      simp add: scheduleGroup_valid scheduleGroup_invalid)+

lemma stop_existing_registry:
  assumes "scheduledGroups s2 = scheduledGroups s" "cronTasks s2 = cronTasks s"
  shows "cronTasks (stop_existing gid s2) = cronTasks (stop_existing gid s)"
    and "scheduledGroups (stop_existing gid s2) = scheduledGroups (stop_existing gid s)"
  using assms by (cases "map_of (scheduledGroups s) gid"; simp add: stop_existing_def)+

section \<open>What createGroup does\<close>

lemma createGroup_valid:
  assumes v: "validate e (cd_cronExpression data)"
    and n: "newId e (world s) = (gid, w1)"
    and fresh: "gid \<notin> set (map g_id (taskGroups (db s)))"
    and g: "g = \<lparr>g_id = gid, g_name = cd_name data, g_description = cd_description data,
             g_cronExpression = cd_cronExpression data,
             g_failureMode = (case cd_failureMode data of
                                None \<Rightarrow> ''stop''
                              | Some m \<Rightarrow> if m = [] then ''stop'' else m),
             g_delayBetweenTasks = (case cd_delayBetweenTasks data of
                                      None \<Rightarrow> 0
                                    | Some n \<Rightarrow> if n = 0 then 0 else n),
             g_enabled = (cd_enabled data \<noteq> Some False),
             g_lastRun = None, g_lastStatus = None, g_lastError = None\<rparr>"
  shows "\<exists>r s2. (scheduledGroups s2 = scheduledGroups s \<and> cronTasks s2 = cronTasks s \<and>
      taskGroups (db s2) = taskGroups (db s) @ [g]) \<and>
      createGroup e data s =
        (case r of
           Inl err \<Rightarrow> (Inl err, s2)
         | Inr (u :: unit) \<Rightarrow>
             (Inr g, (if g_enabled g then snd (scheduleGroup e g s2) else s2)
                \<lparr>effects := effects (if g_enabled g then snd (scheduleGroup e g s2) else s2)
                   @ [Log Info (''Created task group: '' @ g_name g)]\<rparr>))"
proof -
  let ?s1 = "s\<lparr>db := (db s)\<lparr>taskGroups := taskGroups (db s) @ [g]\<rparr>, world := w1\<rparr>"
  show ?thesis
  proof (cases "cd_taskIds data")
    case None
    show ?thesis
      using fresh
      by (intro exI [of _ "Inr ()"] exI [of _ ?s1])
        (simp add: createGroup_def taskGroup_create_def None v n g Let_def)
  next
    case (Some taskIds)
    obtain r s2 where a: "add_tasks gid 0 taskIds ?s1 = (r, s2)"
      by (cases "add_tasks gid 0 taskIds ?s1")
    have "scheduledGroups s2 = scheduledGroups s \<and> cronTasks s2 = cronTasks s \<and>
        taskGroups (db s2) = taskGroups (db s) @ [g]"
      using add_tasks_state [of gid 0 taskIds ?s1] a by simp
    moreover have "createGroup e data s =
        (case r of
           Inl err \<Rightarrow> (Inl err, s2)
         | Inr (u :: unit) \<Rightarrow>
             (Inr g, (if g_enabled g then snd (scheduleGroup e g s2) else s2)
                \<lparr>effects := effects (if g_enabled g then snd (scheduleGroup e g s2) else s2)
                   @ [Log Info (''Created task group: '' @ g_name g)]\<rparr>))"
      using fresh a [unfolded g]
      by (cases r) (simp_all add: createGroup_def taskGroup_create_def Some v n g Let_def)
    ultimately show ?thesis
      by blast
  qed
qed

lemma createGroup_invalid:
  "\<not> validate e (cd_cronExpression data) \<Longrightarrow>
     createGroup e data s =
       (Inl (Error (''Invalid cron expression: '' @ cd_cronExpression data)), s)"
  by (simp add: createGroup_def)

lemma createGroup_taken:
  "validate e (cd_cronExpression data) \<Longrightarrow>
   fst (newId e (world s)) \<in> set (map g_id (taskGroups (db s))) \<Longrightarrow>
     createGroup e data s = (Inl UniqueConstraint, s\<lparr>world := snd (newId e (world s))\<rparr>)"
  by (simp add: createGroup_def taskGroup_create_def split_def)

lemma createGroup_Inr:
  assumes "createGroup e data s = (Inr grp, s')"
  shows "validate e (cd_cronExpression data)"
    and "grp = \<lparr>g_id = fst (newId e (world s)), g_name = cd_name data,
                 g_description = cd_description data,
                 g_cronExpression = cd_cronExpression data,
                 g_failureMode = (case cd_failureMode data of
                                    None \<Rightarrow> ''stop''
                                  | Some m \<Rightarrow> if m = [] then ''stop'' else m),
                 g_delayBetweenTasks = (case cd_delayBetweenTasks data of
                                          None \<Rightarrow> 0
                                        | Some n \<Rightarrow> if n = 0 then 0 else n),
                 g_enabled = (cd_enabled data \<noteq> Some False),
                 g_lastRun = None, g_lastStatus = None, g_lastError = None\<rparr>"
    and "g_id grp \<notin> set (map g_id (taskGroups (db s)))"
    and "\<exists>s2. scheduledGroups s2 = scheduledGroups s \<and> cronTasks s2 = cronTasks s \<and>
           taskGroups (db s2) = taskGroups (db s) @ [grp] \<and>
           s' = (if g_enabled grp then snd (scheduleGroup e grp s2) else s2)
                  \<lparr>effects := effects (if g_enabled grp then snd (scheduleGroup e grp s2) else s2)
                     @ [Log Info (''Created task group: '' @ g_name grp)]\<rparr>"
proof -
  obtain gid w1 where n: "newId e (world s) = (gid, w1)"
    by (cases "newId e (world s)")
  define g where "g = \<lparr>g_id = gid, g_name = cd_name data, g_description = cd_description data,
             g_cronExpression = cd_cronExpression data,
             g_failureMode = (case cd_failureMode data of
                                None \<Rightarrow> ''stop''
                              | Some m \<Rightarrow> if m = [] then ''stop'' else m),
             g_delayBetweenTasks = (case cd_delayBetweenTasks data of
                                      None \<Rightarrow> 0
                                    | Some n \<Rightarrow> if n = 0 then 0 else n),
             g_enabled = (cd_enabled data \<noteq> Some False),
             g_lastRun = None, g_lastStatus = None, g_lastError = None\<rparr>"
  show v: "validate e (cd_cronExpression data)"
    using assms createGroup_invalid [of e data s] by (cases "validate e (cd_cronExpression data)") auto
  have fresh: "gid \<notin> set (map g_id (taskGroups (db s)))"
    using assms createGroup_taken [OF v, of s] n
    by (cases "gid \<in> set (map g_id (taskGroups (db s)))") auto
  from createGroup_valid [OF v n fresh g_def] obtain r s2 where
    s2: "scheduledGroups s2 = scheduledGroups s \<and> cronTasks s2 = cronTasks s \<and>
      taskGroups (db s2) = taskGroups (db s) @ [g]"
    and c: "createGroup e data s =
        (case r of
           Inl err \<Rightarrow> (Inl err, s2)
         | Inr (u :: unit) \<Rightarrow>
             (Inr g, (if g_enabled g then snd (scheduleGroup e g s2) else s2)
                \<lparr>effects := effects (if g_enabled g then snd (scheduleGroup e g s2) else s2)
                   @ [Log Info (''Created task group: '' @ g_name g)]\<rparr>))"
    by (elim exE conjE) (rule that; simp)
  from assms c have eq: "grp = g"
    and s': "s' = (if g_enabled g then snd (scheduleGroup e g s2) else s2)
        \<lparr>effects := effects (if g_enabled g then snd (scheduleGroup e g s2) else s2)
           @ [Log Info (''Created task group: '' @ g_name g)]\<rparr>"
    by (cases r; simp)+
  show "grp = \<lparr>g_id = fst (newId e (world s)), g_name = cd_name data,
                 g_description = cd_description data,
                 g_cronExpression = cd_cronExpression data,
                 g_failureMode = (case cd_failureMode data of
                                    None \<Rightarrow> ''stop''
                                  | Some m \<Rightarrow> if m = [] then ''stop'' else m),
                 g_delayBetweenTasks = (case cd_delayBetweenTasks data of
                                          None \<Rightarrow> 0
                                        | Some n \<Rightarrow> if n = 0 then 0 else n),
                 g_enabled = (cd_enabled data \<noteq> Some False),
                 g_lastRun = None, g_lastStatus = None, g_lastError = None\<rparr>"
    using eq n by (simp add: g_def)
  show "g_id grp \<notin> set (map g_id (taskGroups (db s)))"
    using eq fresh by (simp add: g_def)
  show "\<exists>s2. scheduledGroups s2 = scheduledGroups s \<and> cronTasks s2 = cronTasks s \<and>
           taskGroups (db s2) = taskGroups (db s) @ [grp] \<and>
           s' = (if g_enabled grp then snd (scheduleGroup e grp s2) else s2)
                  \<lparr>effects := effects (if g_enabled grp then snd (scheduleGroup e grp s2) else s2)
                     @ [Log Info (''Created task group: '' @ g_name grp)]\<rparr>"
    using s2 s' unfolding eq by (intro exI [of _ s2]) simp
qed






section \<open>Scheduled groups are enabled groups of the database\<close>

lemma timers_enabled_fields [simp]:
  "timers_enabled (s\<lparr>effects := ef\<rparr>) = timers_enabled s"
  "timers_enabled (s\<lparr>world := w\<rparr>) = timers_enabled s"
  by (simp_all add: timers_enabled_def)








lemma update_row_decomp:
  "update_row p f xs = Some (y, ys) \<Longrightarrow>
     \<exists>pre x post. xs = pre @ x # post \<and> p x \<and> y = f x \<and> ys = pre @ f x # post"
proof (induction xs arbitrary: ys)
  case Nil
  then show ?case by simp
next
  case (Cons a xs)
  show ?case
  proof (cases "p a")
    case True
    with Cons.prems have "y = f a \<and> ys = f a # xs"
      by auto
    with True show ?thesis
      by (intro exI [of _ "[]"] exI [of _ a] exI [of _ xs]) simp
  next
    case False
    with Cons.prems obtain zs where z: "update_row p f xs = Some (y, zs)" "ys = a # zs"
      by (auto split: option.splits)
    from Cons.IH [OF z(1)] obtain pre x post where
      "xs = pre @ x # post \<and> p x \<and> y = f x \<and> zs = pre @ f x # post"
      by blast
    with z(2) show ?thesis
      by (intro exI [of _ "a # pre"] exI [of _ x] exI [of _ post]) simp
  qed
qed


lemma apply_update_id [simp]: "g_id (apply_update data g) = g_id g"
  by (simp add: apply_update_def)


lemma taskGroup_update_id:
  "taskGroup_update groupId (apply_update data) d = Inr (grp, d') \<Longrightarrow> g_id grp = groupId"
  by (auto simp add: taskGroup_update_def split: option.splits dest!: update_row_decomp)











section \<open>The final status of a run\<close>

text \<open>
  C1, as amended. For every group execution that finalizes, the counts of the record are
  the numbers of members recorded success, failed and skipped, and the final status is
  computed from them: \<open>success\<close> if the failed count and the skipped count are zero;
  \<open>failed\<close> if the completed count is zero and at least one member did not succeed;
  otherwise \<open>partial\<close>. In particular a run with at least one member in which every
  member was skipped (all members disabled, say) finalizes as \<open>failed\<close>: the completed
  count is zero, so the second case applies, not the third.
\<close>

theorem final_status_from_counts:
  assumes "executeGroup e groupId s = (Inr ex, s')"
  shows "\<exists>rs. x_taskResults ex = Some rs \<and>
     x_tasksCompleted ex = count_status Success rs \<and>
     x_tasksFailed ex = count_status Failed rs \<and>
     x_tasksSkipped ex = count_status Skipped rs \<and>
     (x_tasksFailed ex = 0 \<and> x_tasksSkipped ex = 0 \<longrightarrow> x_status ex = ''success'') \<and>
     (x_tasksCompleted ex = 0 \<and> (x_tasksFailed ex \<noteq> 0 \<or> x_tasksSkipped ex \<noteq> 0)
        \<longrightarrow> x_status ex = ''failed'') \<and>
     (x_tasksCompleted ex \<noteq> 0 \<and> (x_tasksFailed ex \<noteq> 0 \<or> x_tasksSkipped ex \<noteq> 0)
        \<longrightarrow> x_status ex = ''partial'') \<and>
     (rs \<noteq> [] \<and> (\<forall>r\<in>set rs. r_status r = Skipped) \<longrightarrow> x_status ex = ''failed'')"
proof -
  from executeGroup_Inr [OF assms] obtain grp where
    g: "getGroupWithTasks (db s) groupId = Some grp"
    and rs: "x_taskResults ex = Some (results (run_before e grp s (length (sortedTasks grp))))"
    and c: "x_tasksCompleted ex =
             count_status Success (results (run_before e grp s (length (sortedTasks grp))))"
    and f: "x_tasksFailed ex =
             count_status Failed (results (run_before e grp s (length (sortedTasks grp))))"
    and k: "x_tasksSkipped ex =
             count_status Skipped (results (run_before e grp s (length (sortedTasks grp))))"
    and st: "x_status ex =
             final_status (x_tasksCompleted ex) (x_tasksFailed ex) (x_tasksSkipped ex)"
    by blast
  let ?rs = "results (run_before e grp s (length (sortedTasks grp)))"
  have all_skipped:
    "?rs \<noteq> [] \<and> (\<forall>r\<in>set ?rs. r_status r = Skipped) \<longrightarrow> x_status ex = ''failed''"
  proof
    assume a: "?rs \<noteq> [] \<and> (\<forall>r\<in>set ?rs. r_status r = Skipped)"
    then have "filter (\<lambda>r. r_status r = Skipped) ?rs = ?rs"
      by (simp add: filter_id_conv)
    moreover from a have "filter (\<lambda>r. r_status r = Success) ?rs = []"
      by (simp add: filter_empty_conv)
    ultimately have "count_status Success ?rs = 0 \<and> count_status Skipped ?rs \<noteq> 0"
      using a by (simp add: count_status_def)
    then show "x_status ex = ''failed''"
      using st c k by (simp add: final_status_def)
  qed
  have by_counts:
    "(x_tasksFailed ex = 0 \<and> x_tasksSkipped ex = 0 \<longrightarrow> x_status ex = ''success'') \<and>
     (x_tasksCompleted ex = 0 \<and> (x_tasksFailed ex \<noteq> 0 \<or> x_tasksSkipped ex \<noteq> 0)
        \<longrightarrow> x_status ex = ''failed'') \<and>
     (x_tasksCompleted ex \<noteq> 0 \<and> (x_tasksFailed ex \<noteq> 0 \<or> x_tasksSkipped ex \<noteq> 0)
        \<longrightarrow> x_status ex = ''partial'')"
    using st by (auto simp add: final_status_def)
  show ?thesis
    using rs c f k by_counts all_skipped
    by (intro exI [of _ ?rs]) simp
qed

text \<open>The run of a group whose only member is disabled finalizes, and as \<open>failed\<close>.\<close>

theorem final_status_from_counts_witness:
  "\<exists>ex s'. executeGroup sample_env ''g'' (sample_state ''stop'' 0 [sample_task ''a'' False])
              = (Inr ex, s') \<and>
     x_tasksCompleted ex = 0 \<and> x_tasksFailed ex = 0 \<and> x_tasksSkipped ex = 1 \<and>
     x_status ex = ''failed''"
proof -
  obtain ex s' where run:
    "executeGroup sample_env ''g'' (sample_state ''stop'' 0 [sample_task ''a'' False])
       = (Inr ex, s')"
    by (simp add: sample_defs store_defs run_defs)
  have "x_tasksCompleted ex = 0 \<and> x_tasksFailed ex = 0 \<and> x_tasksSkipped ex = 1"
    using run by (auto simp add: sample_defs store_defs run_defs)
  with final_status_from_counts [OF run] run show ?thesis
    by auto
qed

text \<open>
  The claim as it was stated has such a run finalize as \<open>partial\<close>. It does not: with
  one disabled member the only result is skipped and the status is \<open>failed\<close>.
\<close>

theorem all_skipped_not_partial:
  "\<not> isl (fst (executeGroup sample_env ''g'' (sample_state ''stop'' 0 [sample_task ''a'' False]))) \<and>
   map r_status (the (x_taskResults (projr (fst (executeGroup sample_env ''g''
      (sample_state ''stop'' 0 [sample_task ''a'' False])))))) = [Skipped] \<and>
   x_status (projr (fst (executeGroup sample_env ''g''
      (sample_state ''stop'' 0 [sample_task ''a'' False])))) = ''failed'' \<and>
   x_status (projr (fst (executeGroup sample_env ''g''
      (sample_state ''stop'' 0 [sample_task ''a'' False])))) \<noteq> ''partial''"
  by (simp add: sample_defs store_defs run_defs)

section \<open>A group that does not exist\<close>

text \<open>
  C5. For every group id that does not exist in the store, \<^verbatim>\<open>executeGroup\<close> fails with
  the error \<^verbatim>\<open>Task group <id> not found\<close> and leaves the state as it was: no execution
  record is created, not even a running one, and nothing else changes.
\<close>

theorem executeGroup_not_found:
  assumes "groupId \<notin> set (map g_id (taskGroups (db s)))"
  shows "executeGroup e groupId s =
           (Inl (Error (''Task group '' @ groupId @ '' not found'')), s)"
  using getGroupWithTasks_None [OF assms] by (simp add: executeGroup_def)

theorem executeGroup_not_found_witness:
  "''h'' \<notin> set (map g_id (taskGroups (db (sample_state ''stop'' 0 [sample_task ''a'' True])))) \<and>
   executeGroup sample_env ''h'' (sample_state ''stop'' 0 [sample_task ''a'' True])
     = (Inl (Error ''Task group h not found''), sample_state ''stop'' 0 [sample_task ''a'' True])"
proof -
  have h: "''h'' \<notin> set (map g_id (taskGroups (db (sample_state ''stop'' 0 [sample_task ''a'' True]))))"
    by (simp add: sample_defs)
  from executeGroup_not_found [OF h, of sample_env] h show ?thesis
    by simp
qed

section \<open>One result for each member\<close>

text \<open>
  C9. For every call of \<^verbatim>\<open>executeGroup\<close> on an existing group that finalizes, the list of
  results has exactly one entry for each membership of the group, in ascending
  \<^verbatim>\<open>sortOrder\<close>: entry \<open>k\<close> names the task and the server of member \<open>k\<close> of the
  memberships sorted by \<^verbatim>\<open>sortOrder\<close>. The three counts are the numbers of results of
  each status, and \<^verbatim>\<open>tasksCompleted + tasksFailed + tasksSkipped = tasksTotal\<close>, the
  number of memberships.
\<close>

theorem results_one_per_member:
  assumes "executeGroup e groupId s = (Inr ex, s')"
  shows "\<exists>grp rs. getGroupWithTasks (db s) groupId = Some grp \<and> x_taskResults ex = Some rs \<and>
     length rs = length (taskMemberships grp) \<and>
     list_all2 (\<lambda>res m. r_taskId res = t_id (m_task m) \<and> r_taskName res = t_name (m_task m) \<and>
                          r_serverId res = t_serverId (m_task m) \<and>
                          r_serverName res = srv_name (t_server (m_task m)))
       rs (sortedTasks grp) \<and>
     mset (sortedTasks grp) = mset (taskMemberships grp) \<and>
     sorted (map m_sortOrder (sortedTasks grp)) \<and>
     x_tasksCompleted ex = count_status Success rs \<and>
     x_tasksFailed ex = count_status Failed rs \<and>
     x_tasksSkipped ex = count_status Skipped rs \<and>
     x_tasksCompleted ex + x_tasksFailed ex + x_tasksSkipped ex = x_tasksTotal ex \<and>
     x_tasksTotal ex = length (taskMemberships grp)"
proof -
  from executeGroup_Inr [OF assms] obtain grp where
    g: "getGroupWithTasks (db s) groupId = Some grp"
    and rs: "x_taskResults ex = Some (results (run_before e grp s (length (sortedTasks grp))))"
    and c: "x_tasksCompleted ex =
             count_status Success (results (run_before e grp s (length (sortedTasks grp))))"
    and f: "x_tasksFailed ex =
             count_status Failed (results (run_before e grp s (length (sortedTasks grp))))"
    and k: "x_tasksSkipped ex =
             count_status Skipped (results (run_before e grp s (length (sortedTasks grp))))"
    and t: "x_tasksTotal ex = length (taskMemberships grp)"
    by blast
  let ?rs = "results (run_before e grp s (length (sortedTasks grp)))"
  have len: "length ?rs = length (taskMemberships grp)"
    by (simp add: run_before_def run_members_length run_start_def sortedTasks_def)
  have corr:
    "list_all2 (\<lambda>res m. r_taskId res = t_id (m_task m) \<and> r_taskName res = t_name (m_task m) \<and>
                          r_serverId res = t_serverId (m_task m) \<and>
                          r_serverName res = srv_name (t_server (m_task m)))
       ?rs (sortedTasks grp)"
    using run_members_corresponds
      [of "run_start e grp s" e grp "length (sortedTasks grp)" 0 "sortedTasks grp"]
    by (simp add: run_before_def run_start_def)
  have srt: "mset (sortedTasks grp) = mset (taskMemberships grp)"
    "sorted (map m_sortOrder (sortedTasks grp))"
    by (simp_all add: sortedTasks_def)
  have total:
    "count_status Success ?rs + count_status Failed ?rs + count_status Skipped ?rs = length ?rs"
    by (rule count_status_total)
  show ?thesis
    using g rs c f k t len corr srt total
    by (intro exI [of _ grp] exI [of _ ?rs]) simp
qed

text \<open>
  A run in mode \<open>continue\<close> over the members \<open>bad\<close> at position 7 and \<open>a\<close> at
  position 3: the results are those of \<open>a\<close>, then of \<open>bad\<close>.
\<close>

theorem results_one_per_member_witness:
  "\<exists>ex s'. executeGroup sample_env ''g''
       (sample_state_at ''continue'' 0 [(sample_task ''bad'' True, 7), (sample_task ''a'' True, 3)])
         = (Inr ex, s') \<and>
     map r_taskId (the (x_taskResults ex)) = [''a'', ''bad''] \<and>
     x_tasksCompleted ex + x_tasksFailed ex + x_tasksSkipped ex = 2 \<and> x_tasksTotal ex = 2"
proof -
  obtain ex s' where run:
    "executeGroup sample_env ''g''
       (sample_state_at ''continue'' 0 [(sample_task ''bad'' True, 7), (sample_task ''a'' True, 3)])
         = (Inr ex, s')"
    by (simp add: sample_defs store_defs run_defs)
  have ids: "map r_taskId (the (x_taskResults ex)) = [''a'', ''bad'']"
    using run by (auto simp add: sample_defs store_defs run_defs)
  have "length (the (x_taskResults ex)) = 2"
    using ids by (metis length_map length_Cons list.size(3) numeral_2_eq_2)
  with results_one_per_member [OF run] run ids show ?thesis
    by auto
qed


section \<open>Failure modes\<close>

text \<open>
  C2, as amended. For every group execution in failure mode \<open>stop\<close>, once some member
  has been recorded failed, every later enabled member is recorded skipped with the
  message \<^verbatim>\<open>Skipped due to previous task failure\<close>, and the executor is not invoked for
  it. In any other failure mode, \<open>continue\<close> among them, the executor is invoked for
  every enabled member, whatever has failed before. With four enabled members in mode
  \<open>stop\<close> and the member at position 2 failing, the results are success, failed,
  skipped, skipped, the final status is \<open>partial\<close>, and the counts are 1 completed,
  1 failed and 2 skipped.
\<close>

theorem stop_mode_skips_later_members:
  assumes "executeGroup e groupId s = (Inr ex, s')"
  shows "\<exists>grp rs. getGroupWithTasks (db s) groupId = Some grp \<and> x_taskResults ex = Some rs \<and>
     length rs = length (sortedTasks grp) \<and>
     (g_failureMode grp = ''stop'' \<longrightarrow>
        (\<forall>j k. j < k \<and> k < length rs \<and> r_status (rs ! j) = Failed \<and>
               t_enabled (m_task (sortedTasks grp ! k)) \<longrightarrow>
           r_status (rs ! k) = Skipped \<and>
           r_error (rs ! k) = Some ''Skipped due to previous task failure'' \<and>
           (\<forall>x. ExecuteTask k x \<notin> set (new_effects s s')))) \<and>
     (g_failureMode grp \<noteq> ''stop'' \<longrightarrow>
        (\<forall>k. k < length rs \<and> t_enabled (m_task (sortedTasks grp ! k)) \<longrightarrow>
           r_status (rs ! k) \<noteq> Skipped \<and>
           ExecuteTask k (t_id (m_task (sortedTasks grp ! k))) \<in> set (new_effects s s'))) \<and>
     (g_failureMode grp = ''stop'' \<and> length rs = 4 \<and>
      (\<forall>k<4. t_enabled (m_task (sortedTasks grp ! k))) \<and> r_status (rs ! 1) = Failed \<longrightarrow>
        map r_status rs = [Success, Failed, Skipped, Skipped] \<and> x_status ex = ''partial'' \<and>
        x_tasksCompleted ex = 1 \<and> x_tasksFailed ex = 1 \<and> x_tasksSkipped ex = 2)"
proof -
  from executeGroup_Inr [OF assms] obtain grp where
    g: "getGroupWithTasks (db s) groupId = Some grp"
    and c: "x_tasksCompleted ex =
             count_status Success (results (run_before e grp s (length (sortedTasks grp))))"
    and f: "x_tasksFailed ex =
             count_status Failed (results (run_before e grp s (length (sortedTasks grp))))"
    and sk: "x_tasksSkipped ex =
             count_status Skipped (results (run_before e grp s (length (sortedTasks grp))))"
    and st: "x_status ex =
             final_status (x_tasksCompleted ex) (x_tasksFailed ex) (x_tasksSkipped ex)"
    by blast
  let ?ms = "sortedTasks grp"
  let ?rs = "results (run_before e grp s (length ?ms))"
  have rs: "x_taskResults ex = Some ?rs"
    by (rule executeGroup_group(1) [OF assms g])
  have len: "length ?rs = length ?ms"
    by (simp add: run_before_length)
  have calls: "(ExecuteTask k x \<in> set (new_effects s s')) =
      (k < length ?ms \<and> r_status (?rs ! k) \<noteq> Skipped \<and> x = r_taskId (?rs ! k))" for k x
    by (rule executeGroup_calls [OF assms g])
  have stop: "r_status (?rs ! k) = Skipped \<and>
      r_error (?rs ! k) = Some ''Skipped due to previous task failure'' \<and>
      (\<forall>x. ExecuteTask k x \<notin> set (new_effects s s'))"
    if "g_failureMode grp = ''stop''" "j < k" "k < length ?rs" "r_status (?rs ! j) = Failed"
      "t_enabled (m_task (?ms ! k))" for j k
  proof -
    have "r_status (?rs ! k) = Skipped \<and>
        r_error (?rs ! k) = Some ''Skipped due to previous task failure''"
      using that len by (intro result_stopped [where j = j]) simp_all
    then show ?thesis
      by (simp add: calls)
  qed
  have continue: "r_status (?rs ! k) \<noteq> Skipped \<and>
      ExecuteTask k (t_id (m_task (?ms ! k))) \<in> set (new_effects s s')"
    if "g_failureMode grp \<noteq> ''stop''" "k < length ?rs" "t_enabled (m_task (?ms ! k))" for k
  proof -
    have k: "k < length ?ms"
      using that len by simp
    have "r_status (?rs ! k) \<noteq> Skipped"
      using k that by (intro result_not_skipped) simp_all
    moreover have "r_taskId (?rs ! k) = t_id (m_task (?ms ! k))"
      by (simp add: run_before_nth [OF k] new_result_task)
    ultimately show ?thesis
      using k by (simp add: calls)
  qed
  have four: "map r_status ?rs = [Success, Failed, Skipped, Skipped] \<and>
      x_status ex = ''partial'' \<and> x_tasksCompleted ex = 1 \<and> x_tasksFailed ex = 1 \<and>
      x_tasksSkipped ex = 2"
    if m: "g_failureMode grp = ''stop''" and l: "length ?rs = 4"
      and en: "\<forall>k<4. t_enabled (m_task (?ms ! k))" and second: "r_status (?rs ! 1) = Failed"
  proof -
    have n: "length ?ms = 4"
      using l len by simp
    have "failed (run_before e grp s 0) = False"
      using run_before_failed [of 0 grp e s] by simp
    then have "r_status (?rs ! 0) \<noteq> Skipped"
      using n en by (intro result_not_skipped) simp_all
    moreover have "r_status (?rs ! 0) \<noteq> Failed"
    proof
      assume "r_status (?rs ! 0) = Failed"
      then have "r_status (?rs ! 1) = Skipped"
        using stop [of 0 1] m l en by simp
      with second show False
        by simp
    qed
    ultimately have first: "r_status (?rs ! 0) = Success"
      by (cases "r_status (?rs ! 0)") simp_all
    have third: "r_status (?rs ! 2) = Skipped"
      using stop [of 1 2] m l en second by simp
    have fourth: "r_status (?rs ! 3) = Skipped"
      using stop [of 1 3] m l en second by simp
    have "map r_status ?rs = map r_status [?rs ! 0, ?rs ! 1, ?rs ! 2, ?rs ! 3]"
      using list_of_four [OF l] by simp
    then have statuses: "map r_status ?rs = [Success, Failed, Skipped, Skipped]"
      using first second third fourth by simp
    then have "x_tasksCompleted ex = 1 \<and> x_tasksFailed ex = 1 \<and> x_tasksSkipped ex = 2"
      by (simp add: c f sk count_status_map)
    then show ?thesis
      using statuses st by (simp add: final_status_def)
  qed
  show ?thesis
    apply (intro exI [of _ grp] exI [of _ ?rs] conjI g rs len)
    subgoal using stop by blast
    subgoal using continue by blast
    subgoal using four by blast
    done
qed

text \<open>
  The four members \<open>a\<close>, \<open>bad\<close>, \<open>c\<close> and \<open>d\<close> in mode \<open>stop\<close>: \<open>bad\<close> fails at
  position 2, so \<open>c\<close> and \<open>d\<close> are skipped and never executed.
\<close>

theorem stop_mode_skips_later_members_witness:
  "\<exists>ex s'. executeGroup sample_env ''g'' stop_four = (Inr ex, s') \<and>
     r_status (the (x_taskResults ex) ! 1) = Failed \<and>
     r_status (the (x_taskResults ex) ! 2) = Skipped \<and>
     r_error (the (x_taskResults ex) ! 3) = Some ''Skipped due to previous task failure'' \<and>
     (\<forall>x. ExecuteTask 2 x \<notin> set (new_effects stop_four s')) \<and>
     map r_status (the (x_taskResults ex)) = [Success, Failed, Skipped, Skipped] \<and>
     x_status ex = ''partial'' \<and>
     x_tasksCompleted ex = 1 \<and> x_tasksFailed ex = 1 \<and> x_tasksSkipped ex = 2"
proof -
  let ?ex = "run_of stop_four" and ?s' = "end_of stop_four"
  note run = stop_four_run(1)
  from stop_mode_skips_later_members [OF run] obtain grp rs where
    g: "getGroupWithTasks (db stop_four) ''g'' = Some grp"
    and rs: "x_taskResults ?ex = Some rs"
    and len: "length rs = length (sortedTasks grp)"
    and stop: "g_failureMode grp = ''stop'' \<longrightarrow>
        (\<forall>j k. j < k \<and> k < length rs \<and> r_status (rs ! j) = Failed \<and>
               t_enabled (m_task (sortedTasks grp ! k)) \<longrightarrow>
           r_status (rs ! k) = Skipped \<and>
           r_error (rs ! k) = Some ''Skipped due to previous task failure'' \<and>
           (\<forall>x. ExecuteTask k x \<notin> set (new_effects stop_four ?s')))"
    and four: "g_failureMode grp = ''stop'' \<and> length rs = 4 \<and>
      (\<forall>k<4. t_enabled (m_task (sortedTasks grp ! k))) \<and> r_status (rs ! 1) = Failed \<longrightarrow>
        map r_status rs = [Success, Failed, Skipped, Skipped] \<and> x_status ?ex = ''partial'' \<and>
        x_tasksCompleted ?ex = 1 \<and> x_tasksFailed ?ex = 1 \<and> x_tasksSkipped ?ex = 2"
    by (elim exE conjE) (rule that; assumption)
  from stop_four_group g have mode: "g_failureMode grp = ''stop''"
    and n: "length (sortedTasks grp) = 4"
    and enabled: "\<forall>k<4. t_enabled (m_task (sortedTasks grp ! k))"
    by auto
  have l: "length rs = 4"
    using len n by simp
  have "map r_status rs ! 1 = Failed"
    using stop_four_run(3) rs by simp
  then have second: "r_status (rs ! 1) = Failed"
    using l by simp
  have counts:
    "map r_status rs = [Success, Failed, Skipped, Skipped] \<and> x_status ?ex = ''partial'' \<and>
     x_tasksCompleted ?ex = 1 \<and> x_tasksFailed ?ex = 1 \<and> x_tasksSkipped ?ex = 2"
    using four mode l enabled second by simp
  have later:
    "r_status (rs ! k) = Skipped \<and>
     r_error (rs ! k) = Some ''Skipped due to previous task failure'' \<and>
     (\<forall>x. ExecuteTask k x \<notin> set (new_effects stop_four ?s'))"
    if "1 < k" "k < 4" for k
  proof -
    have "1 < k \<and> k < length rs \<and> r_status (rs ! 1) = Failed \<and>
        t_enabled (m_task (sortedTasks grp ! k))"
      using that l second enabled by simp
    with stop mode show ?thesis
      by blast
  qed
  have third: "r_status (rs ! 2) = Skipped \<and>
      (\<forall>x. ExecuteTask 2 x \<notin> set (new_effects stop_four ?s'))"
    using later [of 2] by simp
  have fourth: "r_error (rs ! 3) = Some ''Skipped due to previous task failure''"
    using later [of 3] by simp
  show ?thesis
    using third fourth counts second
    by (intro exI [of _ ?ex] exI [of _ ?s']) (simp add: run rs)
qed

text \<open>
  The claim as it was stated gives the reason as \<^verbatim>\<open>skipped due to previous failure\<close>.
  The message that the orchestrator records for the third of the four members is another
  string.
\<close>

theorem stop_mode_skip_message:
  "\<not> isl (fst (executeGroup sample_env ''g'' stop_four)) \<and>
   map r_status (the (x_taskResults (projr (fst (executeGroup sample_env ''g'' stop_four))))) ! 2
     = Skipped \<and>
   map r_error (the (x_taskResults (projr (fst (executeGroup sample_env ''g'' stop_four))))) ! 2
     = Some ''Skipped due to previous task failure'' \<and>
   map r_error (the (x_taskResults (projr (fst (executeGroup sample_env ''g'' stop_four))))) ! 2
     \<noteq> Some ''skipped due to previous failure''"
  using stop_four_run(3,4) by (simp add: stop_four_run(1) run_of_def [symmetric])

section \<open>Disabled members\<close>

text \<open>
  C3, as amended. For every member of a group execution whose task is disabled, the
  orchestrator records the outcome skipped with the message \<^verbatim>\<open>Task is disabled\<close>, does
  not invoke the executor for that member, and changes neither the failure flag of the
  run nor the outside world. So no failed result belongs to a disabled member, and an
  enabled member is skipped only in mode \<open>stop\<close> and only after an enabled member
  before it was recorded failed.
\<close>

theorem disabled_member_is_skipped:
  assumes "executeGroup e groupId s = (Inr ex, s')"
  shows "\<exists>grp rs. getGroupWithTasks (db s) groupId = Some grp \<and> x_taskResults ex = Some rs \<and>
     length rs = length (sortedTasks grp) \<and>
     (\<forall>k. k < length rs \<and> \<not> t_enabled (m_task (sortedTasks grp ! k)) \<longrightarrow>
        r_status (rs ! k) = Skipped \<and> r_error (rs ! k) = Some ''Task is disabled'' \<and>
        (\<forall>x. ExecuteTask k x \<notin> set (new_effects s s')) \<and>
        failed (run_before e grp s (Suc k)) = failed (run_before e grp s k) \<and>
        r_world (run_before e grp s (Suc k)) = r_world (run_before e grp s k)) \<and>
     (\<forall>k. k < length rs \<and> r_status (rs ! k) = Failed \<longrightarrow>
        t_enabled (m_task (sortedTasks grp ! k))) \<and>
     (\<forall>k. k < length rs \<and> t_enabled (m_task (sortedTasks grp ! k)) \<and>
          r_status (rs ! k) = Skipped \<longrightarrow>
        g_failureMode grp = ''stop'' \<and>
        (\<exists>j<k. t_enabled (m_task (sortedTasks grp ! j)) \<and> r_status (rs ! j) = Failed))"
proof -
  from executeGroup_Inr [OF assms] obtain grp where
    g: "getGroupWithTasks (db s) groupId = Some grp"
    by blast
  let ?ms = "sortedTasks grp"
  let ?rs = "results (run_before e grp s (length ?ms))"
  have rs: "x_taskResults ex = Some ?rs"
    by (rule executeGroup_group(1) [OF assms g])
  have len: "length ?rs = length ?ms"
    by (simp add: run_before_length)
  have calls: "(ExecuteTask k x \<in> set (new_effects s s')) =
      (k < length ?ms \<and> r_status (?rs ! k) \<noteq> Skipped \<and> x = r_taskId (?rs ! k))" for k x
    by (rule executeGroup_calls [OF assms g])
  have disabled: "r_status (?rs ! k) = Skipped \<and> r_error (?rs ! k) = Some ''Task is disabled'' \<and>
      (\<forall>x. ExecuteTask k x \<notin> set (new_effects s s')) \<and>
      failed (run_before e grp s (Suc k)) = failed (run_before e grp s k) \<and>
      r_world (run_before e grp s (Suc k)) = r_world (run_before e grp s k)"
    if "k < length ?rs" "\<not> t_enabled (m_task (?ms ! k))" for k
  proof -
    have k: "k < length ?ms"
      using that len by simp
    have "r_status (?rs ! k) = Skipped \<and> r_error (?rs ! k) = Some ''Task is disabled''"
      using k that(2) by (rule result_disabled)
    moreover have "run_before e grp s (Suc k) =
        (run_before e grp s k)\<lparr>results := results (run_before e grp s k) @
           [skipped_result e (r_world (run_before e grp s k)) (m_task (?ms ! k))
              ''Task is disabled'']\<rparr>"
      using that(2) by (simp add: run_before_Suc [OF k] process_member_disabled)
    ultimately show ?thesis
      by (simp add: calls)
  qed
  have failed_enabled: "t_enabled (m_task (?ms ! k))"
    if "k < length ?rs" "r_status (?rs ! k) = Failed" for k
    using disabled [of k] that by auto
  have skipped_enabled: "g_failureMode grp = ''stop'' \<and>
      (\<exists>j<k. t_enabled (m_task (?ms ! j)) \<and> r_status (?rs ! j) = Failed)"
    if "k < length ?rs" "t_enabled (m_task (?ms ! k))" "r_status (?rs ! k) = Skipped" for k
  proof -
    have k: "k < length ?ms"
      using that len by simp
    have flag: "failed (run_before e grp s k) \<and> g_failureMode grp = ''stop''"
      using result_not_skipped [OF k that(2), of e s] that(3) by blast
    then obtain j where j: "j < k" "r_status (?rs ! j) = Failed"
      using k by (auto simp add: run_before_failed)
    then have "t_enabled (m_task (?ms ! j))"
      using failed_enabled [of j] that(1) by simp
    with j flag show ?thesis
      by blast
  qed
  show ?thesis
    apply (intro exI [of _ grp] exI [of _ ?rs] conjI g rs len)
    subgoal using disabled by blast
    subgoal using failed_enabled by blast
    subgoal using skipped_enabled by blast
    done
qed

text \<open>
  The members \<open>a\<close>, \<open>b\<close> and \<open>c\<close> in mode \<open>stop\<close> with \<open>b\<close> disabled: \<open>b\<close> is
  skipped and not executed, the flag is as before, and \<open>c\<close> is not skipped.
\<close>

theorem disabled_member_is_skipped_witness:
  "\<exists>ex s' grp. executeGroup sample_env ''g'' second_disabled = (Inr ex, s') \<and>
     getGroupWithTasks (db second_disabled) ''g'' = Some grp \<and>
     \<not> t_enabled (m_task (sortedTasks grp ! 1)) \<and>
     r_status (the (x_taskResults ex) ! 1) = Skipped \<and>
     r_error (the (x_taskResults ex) ! 1) = Some ''Task is disabled'' \<and>
     (\<forall>x. ExecuteTask 1 x \<notin> set (new_effects second_disabled s')) \<and>
     failed (run_before sample_env grp second_disabled 2)
       = failed (run_before sample_env grp second_disabled 1) \<and>
     r_status (the (x_taskResults ex) ! 2) \<noteq> Skipped"
proof -
  let ?ex = "run_of second_disabled" and ?s' = "end_of second_disabled"
  note run = second_disabled_run(1)
  from disabled_member_is_skipped [OF run] obtain grp rs where
    g: "getGroupWithTasks (db second_disabled) ''g'' = Some grp"
    and rs: "x_taskResults ?ex = Some rs"
    and len: "length rs = length (sortedTasks grp)"
    and disabled: "\<forall>k. k < length rs \<and> \<not> t_enabled (m_task (sortedTasks grp ! k)) \<longrightarrow>
        r_status (rs ! k) = Skipped \<and> r_error (rs ! k) = Some ''Task is disabled'' \<and>
        (\<forall>x. ExecuteTask k x \<notin> set (new_effects second_disabled ?s')) \<and>
        failed (run_before sample_env grp second_disabled (Suc k))
          = failed (run_before sample_env grp second_disabled k) \<and>
        r_world (run_before sample_env grp second_disabled (Suc k))
          = r_world (run_before sample_env grp second_disabled k)"
    and skipped_enabled: "\<forall>k. k < length rs \<and> t_enabled (m_task (sortedTasks grp ! k)) \<and>
          r_status (rs ! k) = Skipped \<longrightarrow>
        g_failureMode grp = ''stop'' \<and>
        (\<exists>j<k. t_enabled (m_task (sortedTasks grp ! j)) \<and> r_status (rs ! j) = Failed)"
    by (elim exE conjE) (rule that; assumption)
  from second_disabled_group g have n: "length (sortedTasks grp) = 3"
    and off: "\<not> t_enabled (m_task (sortedTasks grp ! 1))"
    and on: "t_enabled (m_task (sortedTasks grp ! 2))"
    by auto
  have "1 < length rs \<and> \<not> t_enabled (m_task (sortedTasks grp ! 1))"
    using len n off by simp
  with disabled have second:
    "r_status (rs ! 1) = Skipped \<and> r_error (rs ! 1) = Some ''Task is disabled'' \<and>
     (\<forall>x. ExecuteTask 1 x \<notin> set (new_effects second_disabled ?s')) \<and>
     failed (run_before sample_env grp second_disabled (Suc 1))
       = failed (run_before sample_env grp second_disabled 1)"
    by blast
  have third: "r_status (rs ! 2) \<noteq> Skipped"
  proof
    assume "r_status (rs ! 2) = Skipped"
    then have "2 < length rs \<and> t_enabled (m_task (sortedTasks grp ! 2)) \<and>
        r_status (rs ! 2) = Skipped"
      using len n on by simp
    with skipped_enabled obtain j where j: "j < 2" "t_enabled (m_task (sortedTasks grp ! j))"
      "r_status (rs ! j) = Failed"
      by blast
    from j(1) have "j = 0 \<or> j = 1"
      by auto
    with j(2,3) off have "r_status (rs ! 0) = Failed"
      by auto
    moreover have "map r_status rs ! 0 = Success"
      using second_disabled_run(3) rs by simp
    then have "r_status (rs ! 0) = Success"
      using len n by simp
    ultimately show False
      by simp
  qed
  show ?thesis
    using second third off g
    by (intro exI [of _ ?ex] exI [of _ ?s'] exI [of _ grp]) (simp add: run rs numeral_2_eq_2)
qed

text \<open>
  The claim as it was stated gives the reason as \<^verbatim>\<open>task disabled\<close>. The message that
  the orchestrator records for the disabled member is another string.
\<close>

theorem disabled_member_message:
  "\<not> isl (fst (executeGroup sample_env ''g'' second_disabled)) \<and>
   map r_status (the (x_taskResults (projr (fst (executeGroup sample_env ''g'' second_disabled))))) ! 1
     = Skipped \<and>
   map r_error (the (x_taskResults (projr (fst (executeGroup sample_env ''g'' second_disabled))))) ! 1
     = Some ''Task is disabled'' \<and>
   map r_error (the (x_taskResults (projr (fst (executeGroup sample_env ''g'' second_disabled))))) ! 1
     \<noteq> Some ''task disabled''"
  using second_disabled_run(3,4) by (simp add: second_disabled_run(1) run_of_def [symmetric])


section \<open>Executor errors\<close>



section \<open>The delay between tasks\<close>

text \<open>
  C6, as amended. For every group execution that finalizes, what the orchestrator asks of
  the executor and of the timer is, for the members in ascending sort order: nothing for
  a member that is recorded skipped; for any other member the call of the executor and,
  when the member is not the last one in the order and \<^verbatim>\<open>delayBetweenTasks\<close> is
  greater than zero, a suspension of that many seconds right after the call, before the
  next member. So with \<^verbatim>\<open>delayBetweenTasks\<close> greater than zero the number of delays is
  the number of members, the last one in the order left out, that are not skipped; a run
  of 3 members none of which is skipped, with \<^verbatim>\<open>delayBetweenTasks = 5\<close>, has exactly
  two delays, and there is never a delay after the final member. When
  \<^verbatim>\<open>delayBetweenTasks\<close> is zero there is no delay.
\<close>

theorem delays_follow_executed_members:
  assumes "executeGroup e groupId s = (Inr ex, s')"
  shows "\<exists>grp rs. getGroupWithTasks (db s) groupId = Some grp \<and> x_taskResults ex = Some rs \<and>
     length rs = length (sortedTasks grp) \<and>
     filter (\<lambda>ef. \<not> is_log ef) (new_effects s s') =
       concat (map (\<lambda>i. if r_status (rs ! i) = Skipped then []
                         else ExecuteTask i (r_taskId (rs ! i)) #
                              (if Suc i < length rs \<and> 0 < g_delayBetweenTasks grp
                               then [Delay (g_delayBetweenTasks grp * 1000)] else []))
                 [0 ..< length rs]) \<and>
     length (filter is_delay (new_effects s s')) =
       (if 0 < g_delayBetweenTasks grp
        then length (filter (\<lambda>i. r_status (rs ! i) \<noteq> Skipped) [0 ..< length rs - 1])
        else 0) \<and>
     (0 < g_delayBetweenTasks grp \<and> (\<forall>r\<in>set rs. r_status r \<noteq> Skipped) \<longrightarrow>
        length (filter is_delay (new_effects s s')) = length rs - 1) \<and>
     (g_delayBetweenTasks grp = 0 \<longrightarrow> filter is_delay (new_effects s s') = [])"
proof -
  from executeGroup_Inr [OF assms] obtain grp where
    g: "getGroupWithTasks (db s) groupId = Some grp"
    by blast
  let ?n = "length (sortedTasks grp)"
  let ?rs = "results (run_before e grp s ?n)"
  let ?d = "g_delayBetweenTasks grp"
  have rs: "x_taskResults ex = Some ?rs"
    by (rule executeGroup_group(1) [OF assms g])
  have len: "length ?rs = ?n"
    by (simp add: run_before_length)
  note eff = executeGroup_group(2) [OF assms g]
  have log: "is_log (Log lv msg)" for lv msg
    by (simp add: is_log_def)
  have trace: "filter (\<lambda>ef. \<not> is_log ef) (new_effects s s') =
       concat (map (\<lambda>i. if r_status (?rs ! i) = Skipped then []
                         else ExecuteTask i (r_taskId (?rs ! i)) #
                              (if Suc i < length ?rs \<and> 0 < ?d then [Delay (?d * 1000)] else []))
                 [0 ..< length ?rs])"
    by (simp add: eff filter_concat comp_def filter_member_effects log len cong: if_cong)
  have "filter is_delay (new_effects s s') =
      filter is_delay (concat (map (\<lambda>i. member_effects grp ?n i (?rs ! i)) [0 ..< ?n]))"
    by (simp add: eff is_delay_def)
  then have count: "length (filter is_delay (new_effects s s')) =
      (if 0 < ?d then length (filter (\<lambda>i. r_status (?rs ! i) \<noteq> Skipped) [0 ..< length ?rs - 1])
       else 0)"
    by (simp add: delays_concat len)
  have all: "length (filter is_delay (new_effects s s')) = length ?rs - 1"
    if "0 < ?d" "\<forall>r\<in>set ?rs. r_status r \<noteq> Skipped"
  proof -
    have "filter (\<lambda>i. r_status (?rs ! i) \<noteq> Skipped) [0 ..< length ?rs - 1] = [0 ..< length ?rs - 1]"
      using that(2) by (intro filter_True) simp
    then show ?thesis
      using count that(1) by simp
  qed
  have none: "filter is_delay (new_effects s s') = []" if "?d = 0"
    using count that by simp
  show ?thesis
    apply (intro exI [of _ grp] exI [of _ ?rs] conjI g rs len trace count)
    subgoal using all by blast
    subgoal using none by blast
    done
qed

text \<open>
  The three enabled members in mode \<open>continue\<close> with a delay of five seconds: none is
  skipped, and there are two delays.
\<close>

theorem delays_follow_executed_members_witness:
  "\<exists>ex s'. executeGroup sample_env ''g'' three_enabled = (Inr ex, s') \<and>
     length (the (x_taskResults ex)) = 3 \<and>
     length (filter is_delay (new_effects three_enabled s')) = 2"
proof -
  let ?ex = "run_of three_enabled" and ?s' = "end_of three_enabled"
  note run = three_enabled_run(1)
  from delays_follow_executed_members [OF run] obtain grp rs where
    g: "getGroupWithTasks (db three_enabled) ''g'' = Some grp"
    and rs: "x_taskResults ?ex = Some rs"
    and len: "length rs = length (sortedTasks grp)"
    and all: "0 < g_delayBetweenTasks grp \<and> (\<forall>r\<in>set rs. r_status r \<noteq> Skipped) \<longrightarrow>
        length (filter is_delay (new_effects three_enabled ?s')) = length rs - 1"
    by (elim exE conjE) (rule that; assumption)
  from three_enabled_group g have d: "g_delayBetweenTasks grp = 5"
    and n: "length (sortedTasks grp) = 3"
    by auto
  have "Skipped \<notin> set (map r_status rs)"
    using three_enabled_run(3) rs by simp
  then have "\<forall>r\<in>set rs. r_status r \<noteq> Skipped"
    by force
  with all d have "length (filter is_delay (new_effects three_enabled ?s')) = length rs - 1"
    by simp
  then show ?thesis
    using len n
    by (intro exI [of _ ?ex] exI [of _ ?s']) (simp add: run rs)
qed

text \<open>
  The claim as it was stated has a delay after each processed member but the last, two
  for a run of three members. With the second of three members disabled the run has three
  results and one delay: the skipped member is followed by none.
\<close>

theorem skipped_member_has_no_delay:
  "\<not> isl (fst (executeGroup sample_env ''g'' second_disabled)) \<and>
   map r_status (the (x_taskResults (projr (fst (executeGroup sample_env ''g'' second_disabled)))))
     = [Success, Skipped, Success] \<and>
   filter (\<lambda>ef. \<not> is_log ef)
     (new_effects second_disabled (snd (executeGroup sample_env ''g'' second_disabled)))
     = [ExecuteTask 0 ''a'', Delay 5000, ExecuteTask 2 ''c''] \<and>
   length (filter is_delay
     (new_effects second_disabled (snd (executeGroup sample_env ''g'' second_disabled)))) = 1"
proof -
  have "filter is_delay (filter (\<lambda>ef. \<not> is_log ef) (effects (end_of second_disabled)))
      = [Delay 5000]"
    by (simp add: second_disabled_run(5) is_delay_def)
  then have "filter is_delay (effects (end_of second_disabled)) = [Delay 5000]"
    by (simp only: filter_delay_log)
  then show ?thesis
    using second_disabled_run(3,5)
    by (simp add: second_disabled_run(1) run_of_def [symmetric] end_of_def [symmetric]
        new_effects_def sample_start)
qed


section \<open>The pieces of updateGroup and deleteGroup\<close>

















section \<open>Two calls that overlap\<close>



section \<open>An invalid schedule expression\<close>

text \<open>
  C7, as amended. For every group whose cron expression is invalid, \<^verbatim>\<open>scheduleGroup\<close>
  does not return an error to its caller: it logs an error and returns normally. It
  registers nothing: no timer is armed, the registry mapping is unchanged, the database is
  unchanged, and the only change of the state is the log line. \<^verbatim>\<open>createGroup\<close> on a
  cron expression that is invalid returns the error \<^verbatim>\<open>Invalid cron expression: <expr>\<close>
  to its caller and leaves the state as it was.
\<close>

theorem invalid_expression_registers_nothing:
  "(\<not> validate e (g_cronExpression grp) \<longrightarrow>
      scheduleGroup e grp s =
        (Inr (), s\<lparr>effects := effects s @
           [Log Err (''Invalid cron expression for task group '' @ g_name grp @ '': ''
                       @ g_cronExpression grp)]\<rparr>) \<and>
      scheduledGroups (snd (scheduleGroup e grp s)) = scheduledGroups s \<and>
      cronTasks (snd (scheduleGroup e grp s)) = cronTasks s \<and>
      db (snd (scheduleGroup e grp s)) = db s) \<and>
   (\<not> validate e (cd_cronExpression data) \<longrightarrow>
      createGroup e data s =
        (Inl (Error (''Invalid cron expression: '' @ cd_cronExpression data)), s))"
  by (simp add: scheduleGroup_invalid createGroup_invalid)

text \<open>
  The sample validator rejects the expression \<open>often\<close>: scheduling a group with that
  expression only logs, and creating one fails.
\<close>

theorem invalid_expression_registers_nothing_witness:
  "\<not> validate sample_env (g_cronExpression bad_cron_group) \<and>
   scheduleGroup sample_env bad_cron_group sample_service =
     (Inr (), sample_service\<lparr>effects :=
        [Log Err ''Invalid cron expression for task group G: often'']\<rparr>) \<and>
   scheduledGroups (snd (scheduleGroup sample_env bad_cron_group sample_service)) = [] \<and>
   cronTasks (snd (scheduleGroup sample_env bad_cron_group sample_service)) = [] \<and>
   createGroup sample_env (sample_data\<lparr>cd_cronExpression := ''often''\<rparr>) sample_service =
     (Inl (Error ''Invalid cron expression: often''), sample_service)"
proof -
  have bad: "\<not> validate sample_env (g_cronExpression bad_cron_group)"
    "\<not> validate sample_env (cd_cronExpression (sample_data\<lparr>cd_cronExpression := ''often''\<rparr>))"
    by (simp_all add: sample_env_def bad_cron_group_def sample_group_def)
  have start: "effects sample_service = []" "scheduledGroups sample_service = []"
    "cronTasks sample_service = []"
    by (simp_all add: sample_service_def sample_defs)
  have names: "g_name bad_cron_group = ''G''" "g_cronExpression bad_cron_group = ''often''"
    by (simp_all add: bad_cron_group_def sample_group_def)
  from invalid_expression_registers_nothing
    [of sample_env bad_cron_group sample_service "sample_data\<lparr>cd_cronExpression := ''often''\<rparr>"]
    bad
  show ?thesis
    by (simp add: start names)
qed

text \<open>
  The claim as it was stated has the registration return an error. \<^verbatim>\<open>scheduleGroup\<close>
  returns normally for the group with the invalid expression.
\<close>

theorem invalid_expression_no_error:
  "\<not> validate sample_env (g_cronExpression bad_cron_group) \<and>
   \<not> isl (fst (scheduleGroup sample_env bad_cron_group sample_service)) \<and>
   fst (scheduleGroup sample_env bad_cron_group sample_service) = Inr ()"
  by (simp add: scheduleGroup_def sample_env_def bad_cron_group_def sample_group_def)

section \<open>One live timer for each group\<close>




section \<open>The defaults of createGroup\<close>

text \<open>
  C10. On every call of \<^verbatim>\<open>createGroup\<close> that returns a group, the group is the row added
  to the database, with failure mode \<open>stop\<close> when \<^verbatim>\<open>failureMode\<close> is omitted, delay 0
  when \<^verbatim>\<open>delayBetweenTasks\<close> is omitted, and enabled when \<^verbatim>\<open>enabled\<close> is omitted: it is
  disabled exactly when the caller passes \<^verbatim>\<open>false\<close>. A value that is given is kept. If
  the group is enabled, one new running timer with the group's expression is created and
  registered under its id, the only live timer of that id; if it is disabled, the timers
  and the registry are left as they were.
\<close>

theorem createGroup_defaults:
  assumes "createGroup e data s = (Inr grp, s')"
  shows "(cd_failureMode data = None \<longrightarrow> g_failureMode grp = ''stop'') \<and>
     (cd_delayBetweenTasks data = None \<longrightarrow> g_delayBetweenTasks grp = 0) \<and>
     (cd_enabled data = None \<longrightarrow> g_enabled grp) \<and>
     g_enabled grp = (cd_enabled data \<noteq> Some False) \<and>
     (\<forall>m. cd_failureMode data = Some m \<and> m \<noteq> [] \<longrightarrow> g_failureMode grp = m) \<and>
     (\<forall>n. cd_delayBetweenTasks data = Some n \<longrightarrow> g_delayBetweenTasks grp = n) \<and>
     g_name grp = cd_name data \<and> g_cronExpression grp = cd_cronExpression data \<and>
     g_id grp \<notin> set (map g_id (taskGroups (db s))) \<and>
     taskGroups (db s') = taskGroups (db s) @ [grp] \<and>
     (g_enabled grp \<longrightarrow>
        length (cronTasks s') = Suc (length (cronTasks s)) \<and>
        cronTasks s' ! length (cronTasks s) =
          \<lparr>ct_expression = cd_cronExpression data, ct_groupId = g_id grp,
           ct_timezone = ''UTC'', ct_running = True\<rparr> \<and>
        map_of (scheduledGroups s') (g_id grp) = Some (length (cronTasks s)) \<and>
        (registry_ok s \<longrightarrow> live_timers s' (g_id grp) = [length (cronTasks s)])) \<and>
     (\<not> g_enabled grp \<longrightarrow> cronTasks s' = cronTasks s \<and> scheduledGroups s' = scheduledGroups s)"
proof -
  note c = createGroup_Inr [OF assms]
  from c(4) obtain s2 where s2: "scheduledGroups s2 = scheduledGroups s"
    "cronTasks s2 = cronTasks s" "taskGroups (db s2) = taskGroups (db s) @ [grp]"
    and s': "s' = (if g_enabled grp then snd (scheduleGroup e grp s2) else s2)
        \<lparr>effects := effects (if g_enabled grp then snd (scheduleGroup e grp s2) else s2)
           @ [Log Info (''Created task group: '' @ g_name grp)]\<rparr>"
    by (elim exE conjE) (rule that; assumption)
  have fields: "(cd_failureMode data = None \<longrightarrow> g_failureMode grp = ''stop'') \<and>
     (cd_delayBetweenTasks data = None \<longrightarrow> g_delayBetweenTasks grp = 0) \<and>
     (cd_enabled data = None \<longrightarrow> g_enabled grp) \<and>
     g_enabled grp = (cd_enabled data \<noteq> Some False) \<and>
     (\<forall>m. cd_failureMode data = Some m \<and> m \<noteq> [] \<longrightarrow> g_failureMode grp = m) \<and>
     (\<forall>n. cd_delayBetweenTasks data = Some n \<longrightarrow> g_delayBetweenTasks grp = n) \<and>
     g_name grp = cd_name data \<and> g_cronExpression grp = cd_cronExpression data"
    by (subst (1 2 3 4 5 6 7 8) c(2)) auto
  have valid: "validate e (g_cronExpression grp)"
    using c(1) fields by simp
  have stored: "taskGroups (db s') = taskGroups (db s) @ [grp]"
    using s2(3) by (simp add: s')
  have armed: "length (cronTasks s') = Suc (length (cronTasks s)) \<and>
        cronTasks s' ! length (cronTasks s) =
          \<lparr>ct_expression = cd_cronExpression data, ct_groupId = g_id grp,
           ct_timezone = ''UTC'', ct_running = True\<rparr> \<and>
        map_of (scheduledGroups s') (g_id grp) = Some (length (cronTasks s)) \<and>
        (registry_ok s \<longrightarrow> live_timers s' (g_id grp) = [length (cronTasks s)])"
    if en: "g_enabled grp"
  proof -
    have ts: "cronTasks s' = cronTasks (stop_existing (g_id grp) s2) @
        [\<lparr>ct_expression = g_cronExpression grp, ct_groupId = g_id grp,
          ct_timezone = ''UTC'', ct_running = True\<rparr>]"
      using en scheduleGroup_new(1) [OF valid, of s2] by (simp add: s')
    have m: "map_of (scheduledGroups s') (g_id grp) = Some (length (cronTasks s))"
      using en scheduleGroup_new(2) [OF valid, of s2] s2 by (simp add: s')
    have l: "length (cronTasks (stop_existing (g_id grp) s2)) = length (cronTasks s)"
      using s2 by simp
    have live: "live_timers s' (g_id grp) = [length (cronTasks s)]" if "registry_ok s"
    proof -
      have "registry_ok s2"
        using that s2 by (simp add: registry_ok_def)
      from scheduleGroup_armed(1) [OF this valid] show ?thesis
        using en s2 by (simp add: s')
    qed
    show ?thesis
      using ts m l live fields by (simp add: nth_append)
  qed
  have idle: "cronTasks s' = cronTasks s \<and> scheduledGroups s' = scheduledGroups s"
    if "\<not> g_enabled grp"
    using that s2 by (simp add: s')
  show ?thesis
    using fields c(3) stored armed idle by blast
qed

text \<open>
  Creating a group from data with every optional field omitted, on the service over the
  sample database: the defaults are \<open>stop\<close>, 0 and enabled, and the new timer runs.
\<close>

theorem createGroup_defaults_witness:
  "\<exists>grp s'. createGroup sample_env sample_data sample_service = (Inr grp, s') \<and>
     g_failureMode grp = ''stop'' \<and> g_delayBetweenTasks grp = 0 \<and> g_enabled grp \<and>
     length (cronTasks s') = 1 \<and> ct_running (cronTasks s' ! 0) \<and>
     map_of (scheduledGroups s') (g_id grp) = Some 0"
proof -
  have "\<exists>grp s'. createGroup sample_env sample_data sample_service = (Inr grp, s')"
    by (simp add: createGroup_def taskGroup_create_def sample_data_def sample_service_def
        sample_defs Let_def)
  then obtain grp s' where run: "createGroup sample_env sample_data sample_service = (Inr grp, s')"
    by blast
  have omitted: "cd_failureMode sample_data = None" "cd_delayBetweenTasks sample_data = None"
    "cd_enabled sample_data = None"
    by (simp_all add: sample_data_def)
  have start: "cronTasks sample_service = []"
    by (simp add: sample_service_def sample_defs)
  from createGroup_defaults [OF run] omitted start show ?thesis
    by (intro exI [of _ grp] exI [of _ s']) (simp add: run)
qed


end
